theory Spec2Isabelle
  imports Main
begin

section \<open>Data model of src/app.js\<close>

text \<open>
  Strings are lists of 8-bit characters, read as the code units below 256 of a JavaScript
  string. Objects whose fields are all written by the program are records. The two
  localStorage items are kept in the state as the values whose JSON text the browser
  stores (\<open>None\<close>: the key is absent); the text level, where \<open>JSON.parse\<close> can fail, is
  modelled separately in the section on loading.
\<close>

datatype error = SyntaxError | TypeError

record message =
  sender :: string
  content :: string
  timestamp :: string

record chat =
  chat_id :: string
  chat_type :: string
  title :: string
  createdAt :: string
  messages :: "message list"

record profile =
  name :: string
  age :: string
  sex :: string
  description :: string
  updatedAt :: string

text \<open>
  A pending \<open>setTimeout\<close> callback of \<open>generateBotResponse\<close>: the closure holds the three
  local variables the callback reads. All callbacks have the same delay, so they fire in
  the order in which they were scheduled.
\<close>

record timer =
  botResponse :: string
  updateProfileDescription :: bool
  userMessage :: string

datatype screen = InitialScreen | ProfileScreen | ChatScreen

record app_state =
  currentChatType :: string
  currentChatId :: string
  currentChat :: "chat option"
  profile :: "profile option"
  chatTitle :: string
  screen :: screen
  storedProfile :: "profile option"
  storedHistory :: "chat list option"
  timers :: "timer list"

section \<open>Strings and the clock\<close>

text \<open>
  The white space that \<open>String.prototype.trim\<close> strips, among the code units below 256:
  TAB, LF, VT, FF, CR, SP and NBSP.
\<close>

definition isWhiteSpace :: "char \<Rightarrow> bool" where
  "isWhiteSpace c \<longleftrightarrow>
     c \<in> set [CHR 0x09, CHR 0x0A, CHR 0x0B, CHR 0x0C, CHR 0x0D, CHR 0x20, CHR 0xA0]"

definition trim :: "string \<Rightarrow> string" where
  "trim s = rev (dropWhile isWhiteSpace (rev (dropWhile isWhiteSpace s)))"

definition digitChar :: "nat \<Rightarrow> char" where
  "digitChar d = char_of (48 + d)"

text \<open>\<open>Date.now().toString()\<close>: the decimal digits of the clock's milliseconds.\<close>

fun toString :: "nat \<Rightarrow> string" where
  "toString n = (if n < 10 then [digitChar n] else toString (n div 10) @ [digitChar (n mod 10)])"

declare toString.simps [simp del]

section \<open>The chat history item\<close>

definition getChatHistory :: "app_state \<Rightarrow> chat list" where
  "getChatHistory s = (case storedHistory s of None \<Rightarrow> [] | Some h \<Rightarrow> h)"

definition saveChatHistory :: "chat list \<Rightarrow> app_state \<Rightarrow> app_state" where
  "saveChatHistory history s = s\<lparr>storedHistory := Some history\<rparr>"

text \<open>
  \<open>existingChat.messages = currentChat.messages\<close> for the \<open>existingChat\<close> that
  \<open>chatHistory.find\<close> returns: the first entry with the id gets the message list.
\<close>

fun assignMessages :: "string \<Rightarrow> message list \<Rightarrow> chat list \<Rightarrow> chat list" where
  "assignMessages cid ms [] = []"
| "assignMessages cid ms (c # cs) =
     (if chat_id c = cid then c\<lparr>messages := ms\<rparr> # cs else c # assignMessages cid ms cs)"

section \<open>Screens\<close>

definition showProfileScreen :: "app_state \<Rightarrow> app_state" where
  "showProfileScreen s = s\<lparr>screen := ProfileScreen\<rparr>"

definition showChatScreen :: "app_state \<Rightarrow> app_state" where
  "showChatScreen s = s\<lparr>screen := ChatScreen\<rparr>"

definition showInitialScreen :: "app_state \<Rightarrow> app_state" where
  "showInitialScreen s = s\<lparr>screen := InitialScreen, currentChatType := [], currentChatId := []\<rparr>"

section \<open>Sessions\<close>

text \<open>\<open>profile?.name || 'there'\<close>\<close>

definition greetedName :: "profile option \<Rightarrow> string" where
  "greetedName p =
     (case p of None \<Rightarrow> ''there'' | Some q \<Rightarrow> if name q = [] then ''there'' else name q)"

definition initialBotMessage :: "string \<Rightarrow> profile option \<Rightarrow> string" where
  "initialBotMessage ty p =
     (if ty = ''medical'' then
        ''Hello '' @ greetedName p @
        '', I'm here to provide general medical advice. Please describe your symptoms or concerns.''
      else if ty = ''checkup'' then
        ''Hello '' @ greetedName p @
        '', let's do a health checkup. I'll ask you some questions about your health.''
      else if ty = ''learning'' then ''Hello! What would you like to learn about today?''
      else [])"

text \<open>
  \<open>startNewChat\<close> reads the clock three times: \<open>nowMs\<close> is \<open>Date.now()\<close>, \<open>created\<close> and
  \<open>stamp\<close> are the two \<open>new Date().toISOString()\<close>.
\<close>

definition startNewChat :: "nat \<Rightarrow> string \<Rightarrow> string \<Rightarrow> app_state \<Rightarrow> app_state" where
  "startNewChat nowMs created stamp s =
     (let s1 = s\<lparr>currentChatId := toString nowMs\<rparr>;
          greeting = initialBotMessage (currentChatType s1) (profile s1)
      in showChatScreen
           (s1\<lparr>currentChat := Some
                 \<lparr>chat_id = currentChatId s1, chat_type = currentChatType s1,
                  title = chatTitle s1, createdAt = created,
                  messages = [\<lparr>sender = ''bot'', content = greeting, timestamp = stamp\<rparr>]\<rparr>\<rparr>))"

definition handleOptionSelect ::
  "string \<Rightarrow> nat \<Rightarrow> string \<Rightarrow> string \<Rightarrow> app_state \<Rightarrow> app_state" where
  "handleOptionSelect option nowMs created stamp s =
     (let s1 = s\<lparr>currentChatType := option,
                 chatTitle :=
                   (if option = ''medical'' then ''Medical Advice''
                    else if option = ''checkup'' then ''Health Checkup''
                    else if option = ''learning'' then ''Learning''
                    else chatTitle s)\<rparr>
      in if (option = ''medical'' \<or> option = ''checkup'') \<and> profile s1 = None
         then showProfileScreen s1
         else startNewChat nowMs created stamp s1)"

definition handleProfileSubmit ::
  "string \<Rightarrow> string \<Rightarrow> string \<Rightarrow> string \<Rightarrow> string \<Rightarrow> nat \<Rightarrow> string \<Rightarrow> string \<Rightarrow>
   app_state \<Rightarrow> app_state" where
  "handleProfileSubmit nm ag sx descr updated nowMs created stamp s =
     (let p = \<lparr>name = nm, age = ag, sex = sx, description = descr, updatedAt = updated\<rparr>
      in startNewChat nowMs created stamp (s\<lparr>profile := Some p, storedProfile := Some p\<rparr>))"

section \<open>Profile updates\<close>

definition separatorText :: string where
  "separatorText = [CHR 0x0A, CHR 0x0A] @ ''---'' @ [CHR 0x0A, CHR 0x0A]"

text \<open>
  \<open>localeStamp\<close> is \<open>new Date().toLocaleString()\<close>, \<open>isoStamp\<close> the later
  \<open>new Date().toISOString()\<close>.
\<close>

definition updateProfileWithChatInfo ::
  "string \<Rightarrow> string \<Rightarrow> string \<Rightarrow> app_state \<Rightarrow> app_state" where
  "updateProfileWithChatInfo msg localeStamp isoStamp s =
     (case profile s of
        None \<Rightarrow> s
      | Some p \<Rightarrow>
          let separator = (if description p = [] then [] else separatorText);
              p' = p\<lparr>description := description p @ separator @ localeStamp @ '': '' @ msg,
                     updatedAt := isoStamp\<rparr>
          in s\<lparr>profile := Some p', storedProfile := Some p'\<rparr>)"

section \<open>Messages and replies\<close>

text \<open>The \<open>switch\<close> of \<open>generateBotResponse\<close>: the reply and the profile-update flag.\<close>

definition responsePolicy :: "string \<Rightarrow> string \<times> bool" where
  "responsePolicy ty =
     (if ty = ''medical'' then
        (''I understand your concern. While I can't diagnose, I recommend monitoring your symptoms. If they persist or worsen, please consult a healthcare professional.'',
         True)
      else if ty = ''checkup'' then
        (''Thanks for that information. Based on what you've shared, I suggest keeping track of these symptoms and discussing them with your doctor during your next visit.'',
         True)
      else if ty = ''learning'' then
        (''That's an interesting topic! Here's some general information about it: [Sample educational content would go here].'',
         False)
      else (''I'm here to help. Can you tell me more about what you need?'', False))"

definition generateBotResponse :: "string \<Rightarrow> app_state \<Rightarrow> app_state" where
  "generateBotResponse msg s =
     (let (reply, upd) = responsePolicy (currentChatType s)
      in s\<lparr>timers := timers s @
             [\<lparr>botResponse = reply, updateProfileDescription = upd, userMessage = msg\<rparr>]\<rparr>)"

text \<open>
  \<open>sendMessage\<close>: \<open>input\<close> is \<open>messageInput.value\<close>, \<open>stamp\<close> the timestamp of the
  user message. \<open>currentChat.messages.push\<close> raises a TypeError when \<open>currentChat\<close>
  is \<open>null\<close>.
\<close>

definition sendMessage :: "string \<Rightarrow> string \<Rightarrow> app_state \<Rightarrow> error + app_state" where
  "sendMessage input stamp s =
     (let messageText = trim input in
      if messageText = [] then Inr s
      else case currentChat s of
        None \<Rightarrow> Inl TypeError
      | Some c \<Rightarrow>
          let userMsg = \<lparr>sender = ''user'', content = messageText, timestamp = stamp\<rparr>;
              c' = c\<lparr>messages := messages c @ [userMsg]\<rparr>;
              s1 = s\<lparr>currentChat := Some c'\<rparr>;
              chatHistory = getChatHistory s1;
              s2 = (if \<not> list_ex (\<lambda>ch. chat_id ch = currentChatId s1) chatHistory
                    then saveChatHistory (chatHistory @ [c']) s1
                    else case find (\<lambda>ch. chat_id ch = currentChatId s1) chatHistory of
                           None \<Rightarrow> s1
                         | Some existingChat \<Rightarrow>
                             saveChatHistory
                               (assignMessages (currentChatId s1) (messages c') chatHistory) s1)
          in Inr (generateBotResponse messageText s2))"

text \<open>
  The callback that \<open>generateBotResponse\<close> schedules, run for the closure \<open>t\<close>:
  \<open>stamp\<close> is the timestamp of the bot message, the other two readings go to
  \<open>updateProfileWithChatInfo\<close>.
\<close>

definition botReplyCallback ::
  "timer \<Rightarrow> string \<Rightarrow> string \<Rightarrow> string \<Rightarrow> app_state \<Rightarrow> error + app_state" where
  "botReplyCallback t stamp localeStamp isoStamp s =
     (case currentChat s of
        None \<Rightarrow> Inl TypeError
      | Some c \<Rightarrow>
          let botMessage = \<lparr>sender = ''bot'', content = botResponse t, timestamp = stamp\<rparr>;
              c' = c\<lparr>messages := messages c @ [botMessage]\<rparr>;
              s1 = s\<lparr>currentChat := Some c'\<rparr>;
              chatHistory = getChatHistory s1;
              s2 = (case find (\<lambda>ch. chat_id ch = currentChatId s1) chatHistory of
                      None \<Rightarrow> s1
                    | Some existingChat \<Rightarrow>
                        saveChatHistory
                          (assignMessages (currentChatId s1) (messages c') chatHistory) s1)
          in Inr (if updateProfileDescription t \<and> profile s2 \<noteq> None
                  then updateProfileWithChatInfo (userMessage t) localeStamp isoStamp s2
                  else s2))"

text \<open>The oldest pending callback fires; with none pending nothing happens.\<close>

definition fireTimer :: "string \<Rightarrow> string \<Rightarrow> string \<Rightarrow> app_state \<Rightarrow> error + app_state" where
  "fireTimer stamp localeStamp isoStamp s =
     (case timers s of
        [] \<Rightarrow> Inr s
      | t # rest \<Rightarrow> botReplyCallback t stamp localeStamp isoStamp (s\<lparr>timers := rest\<rparr>))"

section \<open>Leaving a chat, the history list\<close>

text \<open>\<open>currentChat?.messages?.length > 1\<close> is false when \<open>currentChat\<close> is \<open>null\<close>.\<close>

definition handleBackFromChat :: "app_state \<Rightarrow> app_state" where
  "handleBackFromChat s =
     (if (case currentChat s of None \<Rightarrow> False | Some c \<Rightarrow> length (messages c) > 1)
      then showInitialScreen s
      else let chatHistory = getChatHistory s;
               updatedHistory = filter (\<lambda>ch. chat_id ch \<noteq> currentChatId s) chatHistory
           in showInitialScreen (saveChatHistory updatedHistory s))"

definition loadChat :: "string \<Rightarrow> app_state \<Rightarrow> app_state" where
  "loadChat chatId s =
     (case find (\<lambda>ch. chat_id ch = chatId) (getChatHistory s) of
        None \<Rightarrow> s
      | Some ch \<Rightarrow>
          showChatScreen
            (s\<lparr>currentChatId := chatId, currentChatType := chat_type ch,
               currentChat := Some ch, chatTitle := title ch\<rparr>))"

text \<open>\<open>confirmed\<close> is the answer to the \<open>confirm\<close> dialog.\<close>

definition deleteAllHistory :: "bool \<Rightarrow> app_state \<Rightarrow> app_state" where
  "deleteAllHistory confirmed s = (if confirmed then s\<lparr>storedHistory := None\<rparr> else s)"

section \<open>Page load and user events\<close>

text \<open>
  \<open>init\<close> with the values \<open>loadProfile\<close> and \<open>getChatHistory\<close> find in the two stored
  items; \<open>pageTitle\<close> is the text the page gives the chat title. The page starts on the
  initial screen.
\<close>

definition init :: "string \<Rightarrow> profile option \<Rightarrow> chat list option \<Rightarrow> app_state" where
  "init pageTitle savedProfile savedHistory =
     \<lparr>currentChatType = [], currentChatId = [], currentChat = None,
      profile = savedProfile, chatTitle = pageTitle, screen = InitialScreen,
      storedProfile = savedProfile, storedHistory = savedHistory, timers = []\<rparr>"

text \<open>
  The events the listeners of \<open>init\<close> react to, each with the clock readings and form
  values its handler uses. \<open>Reply\<close> is the firing of the oldest pending callback,
  \<open>Reload\<close> a new page load over the same localStorage.
\<close>

datatype event =
    SelectOption string nat string string
  | SubmitProfile string string string string string nat string string
  | Send string string
  | Reply string string string
  | Back
  | ShowInitial
  | OpenChat string
  | DeleteHistory bool
  | Reload string

fun step :: "event \<Rightarrow> app_state \<Rightarrow> error + app_state" where
  "step (SelectOption option nowMs created stamp) s =
     Inr (handleOptionSelect option nowMs created stamp s)"
| "step (SubmitProfile nm ag sx descr updated nowMs created stamp) s =
     Inr (handleProfileSubmit nm ag sx descr updated nowMs created stamp s)"
| "step (Send input stamp) s = sendMessage input stamp s"
| "step (Reply stamp localeStamp isoStamp) s = fireTimer stamp localeStamp isoStamp s"
| "step Back s = Inr (handleBackFromChat s)"
| "step ShowInitial s = Inr (showInitialScreen s)"
| "step (OpenChat chatId) s = Inr (loadChat chatId s)"
| "step (DeleteHistory confirmed) s = Inr (deleteAllHistory confirmed s)"
| "step (Reload pageTitle) s = Inr (init pageTitle (storedProfile s) (storedHistory s))"

text \<open>A sequence of events stops at the first error, as the exception would.\<close>

fun run :: "event list \<Rightarrow> app_state \<Rightarrow> error + app_state" where
  "run [] s = Inr s"
| "run (e # es) s = (case step e s of Inl err \<Rightarrow> Inl err | Inr s' \<Rightarrow> run es s')"

text \<open>The messages of the session on screen.\<close>

definition currentMessages :: "app_state \<Rightarrow> message list" where
  "currentMessages s = (case currentChat s of None \<Rightarrow> [] | Some c \<Rightarrow> messages c)"

text \<open>The events of a running session, and those among them that add a user message.\<close>

fun sessionEvent :: "event \<Rightarrow> bool" where
  "sessionEvent (Send input stamp) = True"
| "sessionEvent (Reply stamp localeStamp isoStamp) = True"
| "sessionEvent e = False"

fun accepted :: "event \<Rightarrow> bool" where
  "accepted (Send input stamp) = (trim input \<noteq> [])"
| "accepted e = False"

text \<open>A message followed at once by the firing of its reply.\<close>

definition exchange :: "string \<times> string \<times> string \<times> string \<times> string \<Rightarrow> event list" where
  "exchange x =
     (case x of (input, stamp, replyStamp, localeStamp, isoStamp) \<Rightarrow>
        [Send input stamp, Reply replyStamp localeStamp isoStamp])"

section \<open>Runs of the application\<close>

text \<open>
  app.js does not say where the controls sit on the page. The model takes the message
  input and the send button to belong to the chat screen: a message can be sent only
  while that screen is displayed. No other event is restricted.
\<close>

fun enabled :: "event \<Rightarrow> app_state \<Rightarrow> bool" where
  "enabled (Send input stamp) s = (screen s = ChatScreen)"
| "enabled e s = True"

text \<open>
  The \<open>Date.now()\<close> reading of an event whose handler may start a session, and the
  condition that this reading is not the id of a stored entry.
\<close>

fun sessionClock :: "event \<Rightarrow> nat option" where
  "sessionClock (SelectOption option nowMs created stamp) = Some nowMs"
| "sessionClock (SubmitProfile nm ag sx descr updated nowMs created stamp) = Some nowMs"
| "sessionClock e = None"

definition freshClock :: "event \<Rightarrow> app_state \<Rightarrow> bool" where
  "freshClock e s =
     (case sessionClock e of
        None \<Rightarrow> True
      | Some nowMs \<Rightarrow> \<not> list_ex (\<lambda>ch. chat_id ch = toString nowMs) (getChatHistory s))"

definition enabledFresh :: "event \<Rightarrow> app_state \<Rightarrow> bool" where
  "enabledFresh e s = (enabled e s \<and> freshClock e s)"

text \<open>Every event of the sequence satisfies the guard \<open>g\<close> in the state it meets.\<close>

fun admissible :: "(event \<Rightarrow> app_state \<Rightarrow> bool) \<Rightarrow> event list \<Rightarrow> app_state \<Rightarrow> bool" where
  "admissible g [] s = True"
| "admissible g (e # es) s =
     (g e s \<and> (case step e s of Inl err \<Rightarrow> True | Inr s' \<Rightarrow> admissible g es s'))"

text \<open>
  Two invariants used in the proofs. \<open>stateInv\<close> holds in every state reached by
  events that satisfy \<open>enabled\<close>; \<open>syncInv\<close> holds as long as, in addition, no session
  starts at a clock reading that is the id of a stored entry.
\<close>

definition stateInv :: "app_state \<Rightarrow> bool" where
  "stateInv s \<longleftrightarrow>
     (screen s = ChatScreen \<longrightarrow> (\<exists>c. currentChat s = Some c \<and> chat_id c = currentChatId s)) \<and>
     (\<forall>e\<in>set (getChatHistory s).
        2 \<le> length (messages e) \<and> sender (hd (messages e)) = ''bot'' \<and> chat_id e \<noteq> []) \<and>
     (\<forall>c. currentChat s = Some c \<longrightarrow>
        messages c \<noteq> [] \<and> sender (hd (messages c)) = ''bot'' \<and> chat_id c \<noteq> []) \<and>
     distinct (map chat_id (getChatHistory s)) \<and>
     (currentChat s = None \<longrightarrow> currentChatId s = [] \<and> timers s = [])"

definition syncInv :: "app_state \<Rightarrow> bool" where
  "syncInv s \<longleftrightarrow>
     (\<forall>c. currentChat s = Some c \<longrightarrow>
        (\<forall>e\<in>set (getChatHistory s). chat_id e = currentChatId s \<longrightarrow>
           2 \<le> length (messages c) \<and> hd (messages e) = hd (messages c)))"

section \<open>Loading from localStorage\<close>

text \<open>
  The text level of the two stored items. \<open>JSON.parse\<close> follows the JSON grammar:
  white space is SP, TAB, LF and CR; a value is an object, an array, a string, a number
  or one of true, false and null. The result keeps a number and a string as the
  characters of the source (the escapes of a string are checked, not decoded). Any
  other text is a SyntaxError.
\<close>

datatype json =
    JNull
  | JBool bool
  | JNumber string
  | JString string
  | JArray "json list"
  | JObject "(string \<times> json) list"

text \<open>Tokens.\<close>

datatype token =
    LBrace | RBrace | LBracket | RBracket | Colon | Comma
  | TString string | TNumber string | TTrue | TFalse | TNull

definition isJsonWS :: "char \<Rightarrow> bool" where
  "isJsonWS c \<longleftrightarrow> c \<in> set [CHR 0x20, CHR 0x09, CHR 0x0A, CHR 0x0D]"

definition isDigit :: "char \<Rightarrow> bool" where
  "isDigit c \<longleftrightarrow> c \<in> set ''0123456789''"

definition isHexDigit :: "char \<Rightarrow> bool" where
  "isHexDigit c \<longleftrightarrow> c \<in> set ''0123456789abcdefABCDEF''"

text \<open>
  The number of characters an escape takes after the backslash: one of the eight
  single-character escapes, or u and four hexadecimal digits.
\<close>

definition escapeLength :: "string \<Rightarrow> nat option" where
  "escapeLength cs =
     (case cs of
        [] \<Rightarrow> None
      | e # es \<Rightarrow>
          if e \<in> set [CHR 0x22, CHR 0x5C, CHR ''/'', CHR ''b'', CHR ''f'', CHR ''n'',
                       CHR ''r'', CHR ''t'']
          then Some 1
          else if e = CHR ''u'' \<and> 4 \<le> length es \<and> list_all isHexDigit (take 4 es)
          then Some 5
          else None)"

text \<open>
  The rest of a string after the opening quote, up to the closing one; \<open>acc\<close> holds
  the characters read so far, last first. A control character is not allowed.
\<close>

fun lexString :: "string \<Rightarrow> string \<Rightarrow> (string \<times> string) option" where
  "lexString acc [] = None"
| "lexString acc (c # cs) =
     (if c = CHR 0x22 then Some (rev acc, cs)
      else if c = CHR 0x5C then
        (case escapeLength cs of
           None \<Rightarrow> None
         | Some n \<Rightarrow> lexString (rev (take n cs) @ c # acc) (drop n cs))
      else if (of_char c :: nat) < 32 then None
      else lexString (c # acc) cs)"

text \<open>
  A number: an optional minus, 0 or digits that do not start with 0, an optional
  fraction, an optional exponent.
\<close>

definition lexDigits :: "string \<Rightarrow> (string \<times> string) option" where
  "lexDigits cs =
     (if takeWhile isDigit cs = [] then None
      else Some (takeWhile isDigit cs, dropWhile isDigit cs))"

definition lexInt :: "string \<Rightarrow> (string \<times> string) option" where
  "lexInt cs =
     (case cs of
        [] \<Rightarrow> None
      | c # rest \<Rightarrow> if c = CHR ''0'' then Some (''0'', rest) else lexDigits cs)"

definition lexFrac :: "string \<Rightarrow> (string \<times> string) option" where
  "lexFrac cs =
     (case cs of
        [] \<Rightarrow> Some ([], cs)
      | c # rest \<Rightarrow>
          if c = CHR ''.'' then map_option (\<lambda>(ds, r). (c # ds, r)) (lexDigits rest)
          else Some ([], cs))"

definition lexExp :: "string \<Rightarrow> (string \<times> string) option" where
  "lexExp cs =
     (case cs of
        [] \<Rightarrow> Some ([], cs)
      | c # rest \<Rightarrow>
          if c = CHR ''e'' \<or> c = CHR ''E'' then
            (case rest of
               [] \<Rightarrow> None
             | sg # rest' \<Rightarrow>
                 if sg = CHR ''+'' \<or> sg = CHR ''-''
                 then map_option (\<lambda>(ds, r). (c # sg # ds, r)) (lexDigits rest')
                 else map_option (\<lambda>(ds, r). (c # ds, r)) (lexDigits rest))
          else Some ([], cs))"

definition lexNumber :: "string \<Rightarrow> (string \<times> string) option" where
  "lexNumber cs =
     (let (sg, r0) = (case cs of [] \<Rightarrow> ([], cs)
                      | c # rest \<Rightarrow> if c = CHR ''-'' then ([c], rest) else ([], cs))
      in case lexInt r0 of
           None \<Rightarrow> None
         | Some (i, r1) \<Rightarrow>
             (case lexFrac r1 of
                None \<Rightarrow> None
              | Some (f, r2) \<Rightarrow>
                  (case lexExp r2 of
                     None \<Rightarrow> None
                   | Some (e, r3) \<Rightarrow> Some (sg @ i @ f @ e, r3))))"

lemma lexString_shorter: "lexString acc cs = Some (str, rest) \<Longrightarrow> length rest < length cs"
proof (induction acc cs rule: lexString.induct)
  case (1 acc)
  then show ?case by simp
next
  case (2 acc c cs)
  show ?case
  proof (cases "c = CHR 0x22")
    case True
    with "2.prems" show ?thesis by simp
  next
    case quote: False
    show ?thesis
    proof (cases "c = CHR 0x5C")
      case True
      with quote "2.prems" obtain n where n: "escapeLength cs = Some n"
        and r: "lexString (rev (take n cs) @ c # acc) (drop n cs) = Some (str, rest)"
        by (auto split: option.splits)
      from "2.IH"(1) [OF quote True n r] have "length rest < length (drop n cs)" .
      then show ?thesis by simp
    next
      case False
      with quote "2.prems" have "\<not> (of_char c :: nat) < 32"
        and r: "lexString (c # acc) cs = Some (str, rest)"
        by (auto split: if_splits)
      from "2.IH"(2) [OF quote False this] show ?thesis by simp
    qed
  qed
qed

lemma lexDigits_split: "lexDigits cs = Some (ds, rest) \<Longrightarrow> cs = ds @ rest \<and> ds \<noteq> []"
  by (auto simp: lexDigits_def split: if_splits)

lemma lexInt_split: "lexInt cs = Some (ds, rest) \<Longrightarrow> cs = ds @ rest \<and> ds \<noteq> []"
  by (auto simp: lexInt_def split: list.splits if_splits dest: lexDigits_split)

lemma lexFrac_split: "lexFrac cs = Some (ds, rest) \<Longrightarrow> cs = ds @ rest"
  by (auto simp: lexFrac_def split: list.splits if_splits dest: lexDigits_split)

lemma lexExp_split: "lexExp cs = Some (ds, rest) \<Longrightarrow> cs = ds @ rest"
  by (auto simp: lexExp_def split: list.splits if_splits dest: lexDigits_split)

lemma lexNumber_split: "lexNumber cs = Some (num, rest) \<Longrightarrow> cs = num @ rest \<and> num \<noteq> []"
  by (auto simp: lexNumber_def Let_def split: list.splits if_splits option.splits prod.splits
      dest!: lexInt_split lexFrac_split lexExp_split)

lemma lexNumber_shorter: "lexNumber cs = Some (num, rest) \<Longrightarrow> length rest < length cs"
  by (drule lexNumber_split) (cases num; simp)

function tokens :: "string \<Rightarrow> token list option" where
  "tokens [] = Some []"
| "tokens (c # cs) =
     (if isJsonWS c then tokens cs
      else if c = CHR ''{'' then map_option (Cons LBrace) (tokens cs)
      else if c = CHR ''}'' then map_option (Cons RBrace) (tokens cs)
      else if c = CHR ''['' then map_option (Cons LBracket) (tokens cs)
      else if c = CHR '']'' then map_option (Cons RBracket) (tokens cs)
      else if c = CHR '':'' then map_option (Cons Colon) (tokens cs)
      else if c = CHR '','' then map_option (Cons Comma) (tokens cs)
      else if c = CHR 0x22 then
        (case lexString [] cs of
           None \<Rightarrow> None
         | Some (str, rest) \<Rightarrow> map_option (Cons (TString str)) (tokens rest))
      else if c = CHR ''-'' \<or> isDigit c then
        (case lexNumber (c # cs) of
           None \<Rightarrow> None
         | Some (num, rest) \<Rightarrow> map_option (Cons (TNumber num)) (tokens rest))
      else if take 4 (c # cs) = ''true'' then map_option (Cons TTrue) (tokens (drop 3 cs))
      else if take 5 (c # cs) = ''false'' then map_option (Cons TFalse) (tokens (drop 4 cs))
      else if take 4 (c # cs) = ''null'' then map_option (Cons TNull) (tokens (drop 3 cs))
      else None)"
  by pat_completeness auto
termination
  apply (relation "measure length")
              apply simp_all
  subgoal for c cs x2 x y using lexString_shorter [of "[]" cs x y] by simp
  subgoal for c cs x2 x y using lexNumber_shorter [of "c # cs" x y] by simp
  done

text \<open>
  The parser reads the tokens with a stack of the arrays and objects that are open: the
  elements read so far (last first), for an object also the key whose value is due.
  \<open>parseValue\<close> expects a value, \<open>parseAfter\<close> has just read one.
\<close>

datatype frame = InArray "json list" | InObject "(string \<times> json) list" string

fun parseValue :: "frame list \<Rightarrow> token list \<Rightarrow> json option"
  and parseAfter :: "frame list \<Rightarrow> json \<Rightarrow> token list \<Rightarrow> json option" where
  "parseValue st [] = None"
| "parseValue st (t # ts) =
     (case t of
        TNull \<Rightarrow> parseAfter st JNull ts
      | TTrue \<Rightarrow> parseAfter st (JBool True) ts
      | TFalse \<Rightarrow> parseAfter st (JBool False) ts
      | TNumber num \<Rightarrow> parseAfter st (JNumber num) ts
      | TString str \<Rightarrow> parseAfter st (JString str) ts
      | LBracket \<Rightarrow>
          (case ts of
             RBracket # ts' \<Rightarrow> parseAfter st (JArray []) ts'
           | _ \<Rightarrow> parseValue (InArray [] # st) ts)
      | LBrace \<Rightarrow>
          (case ts of
             RBrace # ts' \<Rightarrow> parseAfter st (JObject []) ts'
           | TString k # Colon # ts' \<Rightarrow> parseValue (InObject [] k # st) ts'
           | _ \<Rightarrow> None)
      | _ \<Rightarrow> None)"
| "parseAfter [] v ts = (if ts = [] then Some v else None)"
| "parseAfter (InArray vs # st) v ts =
     (case ts of
        Comma # ts' \<Rightarrow> parseValue (InArray (v # vs) # st) ts'
      | RBracket # ts' \<Rightarrow> parseAfter st (JArray (rev (v # vs))) ts'
      | _ \<Rightarrow> None)"
| "parseAfter (InObject ms k # st) v ts =
     (case ts of
        Comma # TString k' # Colon # ts' \<Rightarrow> parseValue (InObject ((k, v) # ms) k' # st) ts'
      | RBrace # ts' \<Rightarrow> parseAfter st (JObject (rev ((k, v) # ms))) ts'
      | _ \<Rightarrow> None)"

text \<open>The characters a JSON value can start with.\<close>

definition startsValue :: "char \<Rightarrow> bool" where
  "startsValue c \<longleftrightarrow>
     c \<in> set [CHR ''{'', CHR ''['', CHR 0x22, CHR ''-'', CHR ''t'', CHR ''f'', CHR ''n''] \<or>
     isDigit c"

definition JSON_parse :: "string \<Rightarrow> error + json" where
  "JSON_parse src =
     (case tokens src of
        None \<Rightarrow> Inl SyntaxError
      | Some ts \<Rightarrow> (case parseValue [] ts of None \<Rightarrow> Inl SyntaxError | Some v \<Rightarrow> Inr v))"

text \<open>
  \<open>loadProfile\<close> and \<open>getChatHistory\<close> on the text: the argument is the result of
  \<open>localStorage.getItem\<close> (\<open>None\<close> for \<open>null\<close>), \<open>profile0\<close> the value of the
  variable \<open>profile\<close> before the call. The empty string is falsy, as \<open>null\<close> is.
  Neither function catches the exception of \<open>JSON.parse\<close>.
\<close>

definition loadProfile :: "string option \<Rightarrow> json \<Rightarrow> error + json" where
  "loadProfile savedProfile profile0 =
     (case savedProfile of
        None \<Rightarrow> Inr profile0
      | Some src \<Rightarrow> if src = [] then Inr profile0 else JSON_parse src)"

definition getChatHistory_text :: "string option \<Rightarrow> error + json" where
  "getChatHistory_text savedHistory =
     (case savedHistory of
        None \<Rightarrow> Inr (JArray [])
      | Some src \<Rightarrow> if src = [] then Inr (JArray []) else JSON_parse src)"

section \<open>The profile-append side effect\<close>

text \<open>
  C4. \<open>updateProfileWithChatInfo\<close> does nothing when there is no profile. Otherwise the
  description becomes "<timestamp>: <text>" when it was empty, and the old description
  followed by "\n\n---\n\n<timestamp>: <text>" when it was not; \<open>updatedAt\<close> becomes the
  current time, and the profile is written to the stored item.
\<close>

theorem appendToDescription_spec:
  "updateProfileWithChatInfo txt loc isoT s =
     (case profile s of
        None \<Rightarrow> s
      | Some p \<Rightarrow>
          let p' = p\<lparr>description :=
                      (if description p = [] then loc @ '': '' @ txt
                       else description p @ [CHR 0x0A, CHR 0x0A] @ ''---'' @
                            [CHR 0x0A, CHR 0x0A] @ loc @ '': '' @ txt),
                    updatedAt := isoT\<rparr>
          in s\<lparr>profile := Some p', storedProfile := Some p'\<rparr>)"
  by (simp add: updateProfileWithChatInfo_def separatorText_def Let_def split: option.split)

text \<open>
  C10. A call of \<open>updateProfileWithChatInfo\<close> leaves the name, age and sex of the profile
  as they were; with a profile present, the stored item is the updated profile.
\<close>

theorem updateProfile_frame:
  "map_option name (profile (updateProfileWithChatInfo txt loc isoT s)) =
     map_option name (profile s) \<and>
   map_option age (profile (updateProfileWithChatInfo txt loc isoT s)) =
     map_option age (profile s) \<and>
   map_option sex (profile (updateProfileWithChatInfo txt loc isoT s)) =
     map_option sex (profile s) \<and>
   storedProfile (updateProfileWithChatInfo txt loc isoT s) =
     (if profile s = None then storedProfile s
      else profile (updateProfileWithChatInfo txt loc isoT s))"
  by (simp add: updateProfileWithChatInfo_def Let_def split: option.split)

section \<open>The response policy\<close>

text \<open>
  C5. The reply that \<open>generateBotResponse\<close> schedules is a function of the chat type
  alone: the same for every user message. The profile-update flag is set exactly for
  the types medical and checkup, and not for learning or any other type.
\<close>

theorem responsePolicy_by_category:
  "botResponse (last (timers (generateBotResponse msg s))) =
     fst (responsePolicy (currentChatType s)) \<and>
   updateProfileDescription (last (timers (generateBotResponse msg s))) =
     snd (responsePolicy (currentChatType s)) \<and>
   botResponse (last (timers (generateBotResponse msg s))) =
     botResponse (last (timers (generateBotResponse msg2 s))) \<and>
   (snd (responsePolicy ty) \<longleftrightarrow> ty = ''medical'' \<or> ty = ''checkup'') \<and>
   \<not> snd (responsePolicy ''learning'') \<and> \<not> snd (responsePolicy [])"
  by (simp add: generateBotResponse_def responsePolicy_def split: prod.split)

section \<open>Blank input\<close>

lemma trim_empty_iff: "trim input = [] \<longleftrightarrow> (\<forall>c\<in>set input. isWhiteSpace c)"
proof
  assume blank: "\<forall>c\<in>set input. isWhiteSpace c"
  then show "trim input = []"
    by (auto simp: trim_def dest: set_dropWhileD)
next
  assume "trim input = []"
  then have "dropWhile isWhiteSpace (rev (dropWhile isWhiteSpace input)) = []"
    by (simp add: trim_def)
  then have "\<forall>c\<in>set (dropWhile isWhiteSpace input). isWhiteSpace c"
    by simp
  moreover have "dropWhile isWhiteSpace input \<noteq> [] \<Longrightarrow>
      \<not> isWhiteSpace (hd (dropWhile isWhiteSpace input))"
    by (rule hd_dropWhile)
  ultimately have "dropWhile isWhiteSpace input = []"
    by (metis hd_in_set)
  then show "\<forall>c\<in>set input. isWhiteSpace c"
    by simp
qed

text \<open>
  C7. When the input is empty or consists of white space only, \<open>sendMessage\<close> returns
  normally and the whole state is as before: the messages of the session, the stored
  history, the profile and the pending replies.
\<close>

theorem sendMessage_blank_noop:
  "\<forall>c\<in>set input. isWhiteSpace c \<Longrightarrow> sendMessage input stamp s = Inr s"
  using trim_empty_iff [of input] by (simp add: sendMessage_def)

theorem sendMessage_blank_noop_witness:
  "list_all isWhiteSpace [CHR 0x20, CHR 0x09, CHR 0x0A] \<and>
   sendMessage [CHR 0x20, CHR 0x09, CHR 0x0A] ''t1''
     \<lparr>currentChatType = ''learning'', currentChatId = ''5'', currentChat = None,
      profile = None, chatTitle = ''Learning'', screen = ChatScreen,
      storedProfile = None, storedHistory = None, timers = []\<rparr> =
   Inr \<lparr>currentChatType = ''learning'', currentChatId = ''5'', currentChat = None,
        profile = None, chatTitle = ''Learning'', screen = ChatScreen,
        storedProfile = None, storedHistory = None, timers = []\<rparr>"
proof -
  have blank: "\<forall>c\<in>set [CHR 0x20, CHR 0x09, CHR 0x0A]. isWhiteSpace c"
    by (simp add: isWhiteSpace_def)
  from sendMessage_blank_noop [OF blank] blank show ?thesis
    unfolding list_all_iff by blast
qed

section \<open>What an accepted message and a reply do to the state\<close>

lemma find_None_list_ex: "find P xs = None \<longleftrightarrow> \<not> list_ex P xs"
  by (induction xs) auto

lemma sendMessage_accepted:
  assumes "currentChat s = Some c" and "trim input \<noteq> []"
  shows "sendMessage input stamp s =
     Inr (s\<lparr>currentChat :=
              Some (c\<lparr>messages := messages c @
                     [\<lparr>sender = ''user'', content = trim input, timestamp = stamp\<rparr>]\<rparr>),
            storedHistory :=
              Some (if list_ex (\<lambda>ch. chat_id ch = currentChatId s) (getChatHistory s)
                    then assignMessages (currentChatId s)
                           (messages c @
                            [\<lparr>sender = ''user'', content = trim input, timestamp = stamp\<rparr>])
                           (getChatHistory s)
                    else getChatHistory s @
                           [c\<lparr>messages := messages c @
                              [\<lparr>sender = ''user'', content = trim input, timestamp = stamp\<rparr>]\<rparr>]),
            timers := timers s @
              [\<lparr>botResponse = fst (responsePolicy (currentChatType s)),
                updateProfileDescription = snd (responsePolicy (currentChatType s)),
                userMessage = trim input\<rparr>]\<rparr>)"
  using assms find_None_list_ex [of "\<lambda>ch. chat_id ch = currentChatId s" "getChatHistory s"]
  by (auto simp: sendMessage_def Let_def getChatHistory_def saveChatHistory_def
      generateBotResponse_def split: option.splits prod.splits)


lemma botReplyCallback_Some:
  assumes "currentChat s = Some c"
  shows "\<exists>s'. botReplyCallback t stamp loc isoT s = Inr s' \<and>
     currentChat s' = Some (c\<lparr>messages := messages c @
                     [\<lparr>sender = ''bot'', content = botResponse t, timestamp = stamp\<rparr>]\<rparr>) \<and>
     timers s' = timers s \<and> currentChatId s' = currentChatId s \<and>
     currentChatType s' = currentChatType s \<and> screen s' = screen s \<and> chatTitle s' = chatTitle s \<and>
     getChatHistory s' =
       (if list_ex (\<lambda>ch. chat_id ch = currentChatId s) (getChatHistory s)
        then assignMessages (currentChatId s)
               (messages c @ [\<lparr>sender = ''bot'', content = botResponse t, timestamp = stamp\<rparr>])
               (getChatHistory s)
        else getChatHistory s)"
proof (cases "list_ex (\<lambda>ch. chat_id ch = currentChatId s) (getChatHistory s)")
  case True
  then obtain e where "find (\<lambda>ch. chat_id ch = currentChatId s) (getChatHistory s) = Some e"
    using find_None_list_ex [of "\<lambda>ch. chat_id ch = currentChatId s" "getChatHistory s"] by auto
  with True assms show ?thesis
    by (simp add: botReplyCallback_def Let_def getChatHistory_def saveChatHistory_def
      updateProfileWithChatInfo_def split: option.splits)
next
  case False
  then have "find (\<lambda>ch. chat_id ch = currentChatId s) (getChatHistory s) = None"
    by (simp add: find_None_list_ex)
  with False assms show ?thesis
    by (simp add: botReplyCallback_def Let_def getChatHistory_def saveChatHistory_def
      updateProfileWithChatInfo_def split: option.splits)
qed


section \<open>The messages of a session\<close>

lemma fireTimer_session:
  assumes "currentChat s = Some c"
  shows "\<exists>s' c'. fireTimer stamp loc isoT s = Inr s' \<and> currentChat s' = Some c' \<and>
           length (messages c') + length (timers s') = length (messages c) + length (timers s)"
proof (cases "timers s")
  case Nil
  with assms show ?thesis by (simp add: fireTimer_def)
next
  case (Cons t rest)
  from assms have "currentChat (s\<lparr>timers := rest\<rparr>) = Some c" by simp
  from botReplyCallback_Some [OF this, of t stamp loc isoT] Cons show ?thesis
    by (auto simp: fireTimer_def)
qed

lemma step_session:
  assumes "sessionEvent e" and "currentChat s = Some c"
  shows "\<exists>s' c'. step e s = Inr s' \<and> currentChat s' = Some c' \<and>
           length (messages c') + length (timers s') =
           length (messages c) + length (timers s) + (if accepted e then 2 else 0)"
proof (cases e)
  case (Send input stamp)
  show ?thesis
  proof (cases "trim input = []")
    case True
    with Send assms show ?thesis by (simp add: sendMessage_def)
  next
    case False
    with Send assms sendMessage_accepted [OF assms(2) False, of stamp] show ?thesis by simp
  qed
next
  case (Reply stamp loc isoT)
  with fireTimer_session [OF assms(2), of stamp loc isoT] show ?thesis by simp
qed (use assms in simp_all)

lemma run_session:
  assumes "list_all sessionEvent evs" and "currentChat s = Some c"
  shows "\<exists>s' c'. run evs s = Inr s' \<and> currentChat s' = Some c' \<and>
           length (messages c') + length (timers s') =
           length (messages c) + length (timers s) + 2 * length (filter accepted evs)"
  using assms
proof (induction evs arbitrary: s c)
  case Nil
  then show ?case by simp
next
  case (Cons e evs)
  from Cons.prems have e: "sessionEvent e" and evs: "list_all sessionEvent evs" by simp_all
  from step_session [OF e Cons.prems(2)] obtain s1 c1 where
    s1: "step e s = Inr s1" "currentChat s1 = Some c1"
      "length (messages c1) + length (timers s1) =
       length (messages c) + length (timers s) + (if accepted e then 2 else 0)"
    by blast
  from Cons.IH [OF evs s1(2)] obtain s' c' where
    "run evs s1 = Inr s'" "currentChat s' = Some c'"
    "length (messages c') + length (timers s') =
     length (messages c1) + length (timers s1) + 2 * length (filter accepted evs)"
    by blast
  with s1 show ?case by simp
qed

lemma run_append:
  "run (xs @ ys) s = (case run xs s of Inl err \<Rightarrow> Inl err | Inr s' \<Rightarrow> run ys s')"
  by (induction xs arbitrary: s) (auto split: sum.splits)

lemma exchange_senders:
  assumes "currentChat s = Some c" and "timers s = []" and "trim (fst x) \<noteq> []"
  shows "\<exists>s' c'. run (exchange x) s = Inr s' \<and> currentChat s' = Some c' \<and> timers s' = [] \<and>
           map sender (messages c') = map sender (messages c) @ [''user'', ''bot'']"
proof -
  obtain input stamp replyStamp loc isoT where x: "x = (input, stamp, replyStamp, loc, isoT)"
    by (cases x) auto
  with assms(3) have acc: "trim input \<noteq> []" by simp
  let ?c1 = "c\<lparr>messages := messages c @
               [\<lparr>sender = ''user'', content = trim input, timestamp = stamp\<rparr>]\<rparr>"
  from sendMessage_accepted [OF assms(1) acc, of stamp] obtain s1 t where
    s1: "sendMessage input stamp s = Inr s1" "currentChat s1 = Some ?c1" "timers s1 = [t]"
    using assms(2) by simp
  from s1(2) have "currentChat (s1\<lparr>timers := []\<rparr>) = Some ?c1" by simp
  from botReplyCallback_Some [OF this, of t replyStamp loc isoT] obtain s2 where
    "botReplyCallback t replyStamp loc isoT (s1\<lparr>timers := []\<rparr>) = Inr s2"
    "currentChat s2 = Some (?c1\<lparr>messages := messages ?c1 @
        [\<lparr>sender = ''bot'', content = botResponse t, timestamp = replyStamp\<rparr>]\<rparr>)"
    "timers s2 = []"
    by auto
  with s1 x show ?thesis by (simp add: exchange_def fireTimer_def)
qed

lemma run_exchanges:
  assumes "list_all (\<lambda>x. trim (fst x) \<noteq> []) xs" and "currentChat s = Some c" and "timers s = []"
  shows "\<exists>s' c'. run (concat (map exchange xs)) s = Inr s' \<and> currentChat s' = Some c' \<and>
           timers s' = [] \<and>
           map sender (messages c') =
             map sender (messages c) @ concat (replicate (length xs) [''user'', ''bot''])"
  using assms
proof (induction xs arbitrary: s c)
  case Nil
  then show ?case by simp
next
  case (Cons x xs)
  from Cons.prems have x: "trim (fst x) \<noteq> []" and xs: "list_all (\<lambda>x. trim (fst x) \<noteq> []) xs"
    by simp_all
  from exchange_senders [OF Cons.prems(2,3) x] obtain s1 c1 where
    s1: "run (exchange x) s = Inr s1" "currentChat s1 = Some c1" "timers s1 = []"
      "map sender (messages c1) = map sender (messages c) @ [''user'', ''bot'']"
    by blast
  from Cons.IH [OF xs s1(2,3)] obtain s' c' where
    "run (concat (map exchange xs)) s1 = Inr s'" "currentChat s' = Some c'" "timers s' = []"
    "map sender (messages c') =
       map sender (messages c1) @ concat (replicate (length xs) [''user'', ''bot''])"
    by blast
  with s1 show ?case by (simp add: run_append)
qed

lemma startNewChat_session:
  "currentChat (startNewChat nowMs created stamp s) =
     Some \<lparr>chat_id = toString nowMs, chat_type = currentChatType s, title = chatTitle s,
           createdAt = created,
           messages = [\<lparr>sender = ''bot'',
                        content = initialBotMessage (currentChatType s) (profile s),
                        timestamp = stamp\<rparr>]\<rparr> \<and>
   timers (startNewChat nowMs created stamp s) = timers s \<and>
   currentChatId (startNewChat nowMs created stamp s) = toString nowMs \<and>
   screen (startNewChat nowMs created stamp s) = ChatScreen"
  by (simp add: startNewChat_def showChatScreen_def Let_def)

text \<open>
  C3, as the code has it. Take a session that \<open>startNewChat\<close> starts while no reply
  of an earlier session is pending. For every sequence of messages and reply firings,
  no step raises, and once no reply is pending the message list has length
  1 + 2 * (number of accepted messages). When every accepted message is followed by the
  firing of its reply before the next message is sent, the senders are
  bot, user, bot, user, ..., bot.
\<close>

theorem session_message_count:
  assumes "timers s = []"
  shows "(list_all sessionEvent evs \<longrightarrow>
            (\<exists>s'. run evs (startNewChat nowMs created stamp s) = Inr s' \<and>
                  (timers s' = [] \<longrightarrow>
                     length (currentMessages s') = 1 + 2 * length (filter accepted evs)))) \<and>
         (list_all (\<lambda>x. trim (fst x) \<noteq> []) xs \<longrightarrow>
            (\<exists>s'. run (concat (map exchange xs)) (startNewChat nowMs created stamp s) = Inr s' \<and>
                  timers s' = [] \<and>
                  map sender (currentMessages s') =
                    ''bot'' # concat (replicate (length xs) [''user'', ''bot''])))"
proof (intro conjI impI)
  let ?s0 = "startNewChat nowMs created stamp s"
  from startNewChat_session [of nowMs created stamp s] obtain c0 where
    c0: "currentChat ?s0 = Some c0" "length (messages c0) = 1" "map sender (messages c0) = [''bot'']"
      "timers ?s0 = []"
    using assms by simp
  {
    assume "list_all sessionEvent evs"
    from run_session [OF this c0(1)] c0(2,4)
    show "\<exists>s'. run evs ?s0 = Inr s' \<and>
            (timers s' = [] \<longrightarrow> length (currentMessages s') = 1 + 2 * length (filter accepted evs))"
      by (auto simp: currentMessages_def)
  }
  {
    assume "list_all (\<lambda>x. trim (fst x) \<noteq> []) xs"
    from run_exchanges [OF this c0(1,4)] c0(3)
    show "\<exists>s'. run (concat (map exchange xs)) ?s0 = Inr s' \<and> timers s' = [] \<and>
            map sender (currentMessages s') =
              ''bot'' # concat (replicate (length xs) [''user'', ''bot''])"
      by (auto simp: currentMessages_def)
  }
qed

theorem session_message_count_witness:
  "timers (init [] None None) = [] \<and>
   (\<exists>s'. run [Send ''a'' ''t1'', Send ''  '' ''t2'', Send ''b'' ''t3'', Reply ''t4'' ''l4'' ''i4'',
              Reply ''t5'' ''l5'' ''i5'']
             (startNewChat 5 ''c0'' ''t0'' (init [] None None)) = Inr s' \<and>
         timers s' = [] \<and> length (currentMessages s') = 5) \<and>
   (\<exists>s'. run (concat (map exchange [(''a'', ''t1'', ''t2'', ''l2'', ''i2''),
                                     (''b'', ''t3'', ''t4'', ''l4'', ''i4'')]))
             (startNewChat 5 ''c0'' ''t0'' (init [] None None)) = Inr s' \<and>
         timers s' = [] \<and>
         map sender (currentMessages s') = [''bot'', ''user'', ''bot'', ''user'', ''bot''])"
proof -
  let ?evs = "[Send ''a'' ''t1'', Send ''  '' ''t2'', Send ''b'' ''t3'', Reply ''t4'' ''l4'' ''i4'',
              Reply ''t5'' ''l5'' ''i5'']"
  let ?xs = "[(''a'', ''t1'', ''t2'', ''l2'', ''i2''), (''b'', ''t3'', ''t4'', ''l4'', ''i4'')]"
  have t0: "timers (init [] None None) = []" by (simp add: init_def)
  have evs: "list_all sessionEvent ?evs" by simp
  have xs: "list_all (\<lambda>x. trim (fst x) \<noteq> []) ?xs" by code_simp
  have n: "length (filter accepted ?evs) = 2" by code_simp
  have fired: "case run ?evs (startNewChat 5 ''c0'' ''t0'' (init [] None None)) of
                 Inl err \<Rightarrow> False | Inr s \<Rightarrow> timers s = []"
    by code_simp
  note th = session_message_count [OF t0, of ?evs 5 "''c0''" "''t0''" ?xs]
  from mp [OF conjunct1 [OF th] evs] obtain s1 where
    s1: "run ?evs (startNewChat 5 ''c0'' ''t0'' (init [] None None)) = Inr s1"
        "timers s1 = [] \<longrightarrow> length (currentMessages s1) = 1 + 2 * length (filter accepted ?evs)"
    by (elim exE conjE)
  from mp [OF conjunct2 [OF th] xs] obtain s2 where
    s2: "run (concat (map exchange ?xs)) (startNewChat 5 ''c0'' ''t0'' (init [] None None)) = Inr s2"
        "timers s2 = []"
        "map sender (currentMessages s2) = ''bot'' # concat (replicate (length ?xs) [''user'', ''bot''])"
    by (elim exE conjE)
  from fired s1(1) have "timers s1 = []" by simp
  with s1 n have "length (currentMessages s1) = 5" by simp
  moreover from s2(3) have "map sender (currentMessages s2) = [''bot'', ''user'', ''bot'', ''user'', ''bot'']"
    by (simp add: numeral_2_eq_2)
  ultimately show ?thesis using t0 s1(1) s2(1,2) \<open>timers s1 = []\<close>
    by (intro conjI exI [of _ s1] exI [of _ s2])
qed

text \<open>
  The senders do not alternate when a second message is sent before the reply to the
  first has fired: bot, user, user, bot, bot. And a reply that is still pending when its
  session is left is appended to the session started next, which then holds four
  messages after one accepted message.
\<close>

theorem session_messages_counterexample:
  "(case run [SelectOption ''learning'' 5 ''c0'' ''t0'', Send ''a'' ''t1'', Send ''b'' ''t2'',
              Reply ''t3'' ''l3'' ''i3'', Reply ''t4'' ''l4'' ''i4''] (init [] None None) of
      Inl err \<Rightarrow> False
    | Inr s \<Rightarrow> timers s = [] \<and>
              map sender (currentMessages s) = [''bot'', ''user'', ''user'', ''bot'', ''bot'']) \<and>
   (case run [SelectOption ''learning'' 5 ''c0'' ''t0'', Send ''a'' ''t1'', ShowInitial,
              SelectOption ''learning'' 9 ''c2'' ''t2'', Reply ''t3'' ''l3'' ''i3'',
              Send ''b'' ''t4'', Reply ''t5'' ''l5'' ''i5''] (init [] None None) of
      Inl err \<Rightarrow> False
    | Inr s \<Rightarrow> timers s = [] \<and> currentChatId s = ''9'' \<and>
              map sender (currentMessages s) = [''bot'', ''bot'', ''user'', ''bot''])"
  by code_simp


section \<open>Session ids\<close>

lemma toString_nonempty: "toString n \<noteq> []"
  by (subst toString.simps) simp

lemma digitChar_inj: "a < 10 \<Longrightarrow> b < 10 \<Longrightarrow> digitChar a = digitChar b \<Longrightarrow> a = b"
proof -
  assume a: "a < 10" and b: "b < 10" and eq: "digitChar a = digitChar b"
  from eq have "(of_char (digitChar a) :: nat) = of_char (digitChar b)" by simp
  then have "(48 + a) mod 256 = (48 + b) mod 256" by (simp add: digitChar_def)
  with a b show "a = b" by simp
qed

lemma toString_inj: "toString n = toString m \<Longrightarrow> n = m"
proof (induction n arbitrary: m rule: toString.induct)
  case (1 n)
  show ?case
  proof (cases "n < 10")
    case small: True
    show ?thesis
    proof (cases "m < 10")
      case True
      with small "1.prems" have "digitChar n = digitChar m"
        by (simp add: toString.simps [of n] toString.simps [of m])
      with small True show ?thesis by (rule digitChar_inj)
    next
      case False
      with small "1.prems" toString_nonempty [of "m div 10"] show ?thesis
        by (simp add: toString.simps [of n] toString.simps [of m])
    qed
  next
    case big: False
    show ?thesis
    proof (cases "m < 10")
      case True
      with big "1.prems" toString_nonempty [of "n div 10"] show ?thesis
        by (simp add: toString.simps [of n] toString.simps [of m])
    next
      case False
      with big "1.prems" have eq: "toString (n div 10) = toString (m div 10)"
        and d: "digitChar (n mod 10) = digitChar (m mod 10)"
        by (simp_all add: toString.simps [of n] toString.simps [of m])
      from "1.IH" [OF big eq] have "n div 10 = m div 10" .
      moreover from d have "n mod 10 = m mod 10" by (intro digitChar_inj) simp_all
      ultimately show ?thesis by (metis div_mult_mod_eq)
    qed
  qed
qed

section \<open>Invariant of the reachable states\<close>

lemma assignMessages_ids: "map chat_id (assignMessages i ms H) = map chat_id H"
  by (induction H) simp_all


lemma assignMessages_absent:
  "\<not> list_ex (\<lambda>ch. chat_id ch = i) H \<Longrightarrow> assignMessages i ms H = H"
  by (induction H) simp_all

lemma assignMessages_set:
  "e' \<in> set (assignMessages i ms H) \<Longrightarrow>
     e' \<in> set H \<or> (\<exists>e\<in>set H. chat_id e = i \<and> e' = e\<lparr>messages := ms\<rparr>)"
  by (induction H) (auto split: if_splits)


lemma sendMessage_obs:
  assumes "currentChat s = Some c" and "trim input \<noteq> []"
  shows "\<exists>s'. sendMessage input stamp s = Inr s' \<and>
     currentChat s' = Some (c\<lparr>messages := messages c @
                     [\<lparr>sender = ''user'', content = trim input, timestamp = stamp\<rparr>]\<rparr>) \<and>
     timers s' = timers s @
              [\<lparr>botResponse = fst (responsePolicy (currentChatType s)),
                updateProfileDescription = snd (responsePolicy (currentChatType s)),
                userMessage = trim input\<rparr>] \<and>
     currentChatId s' = currentChatId s \<and> currentChatType s' = currentChatType s \<and>
     screen s' = screen s \<and> chatTitle s' = chatTitle s \<and> profile s' = profile s \<and>
     storedProfile s' = storedProfile s \<and>
     getChatHistory s' =
       (if list_ex (\<lambda>ch. chat_id ch = currentChatId s) (getChatHistory s)
        then assignMessages (currentChatId s)
               (messages c @ [\<lparr>sender = ''user'', content = trim input, timestamp = stamp\<rparr>])
               (getChatHistory s)
        else getChatHistory s @
               [c\<lparr>messages := messages c @
                  [\<lparr>sender = ''user'', content = trim input, timestamp = stamp\<rparr>]\<rparr>])"
  by (simp add: sendMessage_accepted [OF assms] getChatHistory_def)

lemma stateInv_startNewChat:
  assumes "stateInv s"
  shows "stateInv (startNewChat nowMs created stamp s)"
  using assms toString_nonempty [of nowMs]
  by (simp add: stateInv_def startNewChat_def showChatScreen_def Let_def getChatHistory_def)

lemma stateInv_handleOptionSelect:
  assumes "stateInv s"
  shows "stateInv (handleOptionSelect option nowMs created stamp s)"
proof -
  let ?s1 = "s\<lparr>currentChatType := option,
                 chatTitle :=
                   (if option = ''medical'' then ''Medical Advice''
                    else if option = ''checkup'' then ''Health Checkup''
                    else if option = ''learning'' then ''Learning''
                    else chatTitle s)\<rparr>"
  from assms have s1: "stateInv ?s1" by (simp add: stateInv_def getChatHistory_def)
  then have "stateInv (showProfileScreen ?s1)"
    by (simp add: stateInv_def getChatHistory_def showProfileScreen_def)
  with stateInv_startNewChat [OF s1] show ?thesis
    by (simp add: handleOptionSelect_def Let_def)
qed

lemma stateInv_handleProfileSubmit:
  assumes "stateInv s"
  shows "stateInv (handleProfileSubmit nm ag sx descr updated nowMs created stamp s)"
proof -
  from assms have "stateInv (s\<lparr>profile := Some p, storedProfile := Some p\<rparr>)" for p
    by (simp add: stateInv_def getChatHistory_def)
  then show ?thesis
    by (simp add: handleProfileSubmit_def Let_def stateInv_startNewChat)
qed

lemma stateInv_showInitialScreen: "stateInv s \<Longrightarrow> stateInv (showInitialScreen s)"
  by (simp add: stateInv_def showInitialScreen_def getChatHistory_def)

lemma stateInv_handleBackFromChat:
  assumes "stateInv s"
  shows "stateInv (handleBackFromChat s)"
proof -
  from assms have
    "stateInv (saveChatHistory (filter (\<lambda>ch. chat_id ch \<noteq> currentChatId s) (getChatHistory s)) s)"
    by (auto simp: stateInv_def saveChatHistory_def getChatHistory_def distinct_map_filter
        split: option.splits)
  with assms show ?thesis
    by (simp add: handleBackFromChat_def Let_def stateInv_showInitialScreen)
qed

lemma find_SomeD: "find P xs = Some x \<Longrightarrow> x \<in> set xs \<and> P x"
  by (induction xs) (auto split: if_splits)

lemma stateInv_loadChat:
  assumes "stateInv s"
  shows "stateInv (loadChat chatId s)"
proof (cases "find (\<lambda>ch. chat_id ch = chatId) (getChatHistory s)")
  case None
  with assms show ?thesis by (simp add: loadChat_def)
next
  case (Some ch)
  from find_SomeD [OF Some] have ch: "ch \<in> set (getChatHistory s)" "chat_id ch = chatId"
    by simp_all
  from assms ch(1) have "2 \<le> length (messages ch)" "sender (hd (messages ch)) = ''bot''"
    "chat_id ch \<noteq> []"
    by (simp_all add: stateInv_def)
  with assms ch(2) Some show ?thesis
    by (auto simp: stateInv_def loadChat_def showChatScreen_def getChatHistory_def)
qed

lemma stateInv_deleteAllHistory: "stateInv s \<Longrightarrow> stateInv (deleteAllHistory confirmed s)"
  by (simp add: stateInv_def deleteAllHistory_def getChatHistory_def)

lemma stateInv_init: "stateInv (init pageTitle None None)"
  by (simp add: stateInv_def init_def getChatHistory_def)

lemma stateInv_reload:
  "stateInv s \<Longrightarrow> stateInv (init pageTitle (storedProfile s) (storedHistory s))"
  by (simp add: stateInv_def init_def getChatHistory_def)

lemma stateInv_sendMessage:
  assumes "stateInv s" and "screen s = ChatScreen"
  shows "\<exists>s'. sendMessage input stamp s = Inr s' \<and> stateInv s'"
proof (cases "trim input = []")
  case True
  with assms show ?thesis by (simp add: sendMessage_def)
next
  case False
  from assms obtain c where c: "currentChat s = Some c" "chat_id c = currentChatId s"
    by (auto simp: stateInv_def)
  from assms(1) c(1) have c_ok: "messages c \<noteq> []" "sender (hd (messages c)) = ''bot''"
    "chat_id c \<noteq> []"
    by (simp_all add: stateInv_def)
  let ?ms = "messages c @ [\<lparr>sender = ''user'', content = trim input, timestamp = stamp\<rparr>]"
  from sendMessage_obs [OF c(1) False, of stamp] obtain s' where
    s': "sendMessage input stamp s = Inr s'" "currentChat s' = Some (c\<lparr>messages := ?ms\<rparr>)"
      "currentChatId s' = currentChatId s" "screen s' = screen s"
      "getChatHistory s' =
       (if list_ex (\<lambda>ch. chat_id ch = currentChatId s) (getChatHistory s)
        then assignMessages (currentChatId s) ?ms (getChatHistory s)
        else getChatHistory s @ [c\<lparr>messages := ?ms\<rparr>])"
    by blast
  have ms: "2 \<le> length ?ms" "sender (hd ?ms) = ''bot''"
    using c_ok by (cases "messages c"; simp)+
  have entries: "\<forall>e\<in>set (getChatHistory s').
      2 \<le> length (messages e) \<and> sender (hd (messages e)) = ''bot'' \<and> chat_id e \<noteq> []"
  proof
    fix e assume e: "e \<in> set (getChatHistory s')"
    show "2 \<le> length (messages e) \<and> sender (hd (messages e)) = ''bot'' \<and> chat_id e \<noteq> []"
    proof (cases "list_ex (\<lambda>ch. chat_id ch = currentChatId s) (getChatHistory s)")
      case True
      with e s'(5) have "e \<in> set (assignMessages (currentChatId s) ?ms (getChatHistory s))"
        by simp
      from assignMessages_set [OF this] assms(1) ms show ?thesis
        by (auto simp: stateInv_def)
    next
      case False
      with e s'(5) have "e \<in> set (getChatHistory s) \<or> e = c\<lparr>messages := ?ms\<rparr>" by auto
      with assms(1) ms c_ok show ?thesis by (auto simp: stateInv_def)
    qed
  qed
  have ids: "distinct (map chat_id (getChatHistory s'))"
    using assms(1) s'(5) c(2)
    by (auto simp: stateInv_def assignMessages_ids list_ex_iff)
  from s' c ms c_ok entries ids show ?thesis
    by (simp add: stateInv_def)
qed

lemma stateInv_fireTimer:
  assumes "stateInv s"
  shows "\<exists>s'. fireTimer stamp loc isoT s = Inr s' \<and> stateInv s'"
proof (cases "timers s")
  case Nil
  with assms show ?thesis by (simp add: fireTimer_def)
next
  case (Cons t rest)
  with assms obtain c where c: "currentChat s = Some c"
    by (auto simp: stateInv_def)
  from assms c have c_ok: "messages c \<noteq> []" "sender (hd (messages c)) = ''bot''"
    "chat_id c \<noteq> []"
    by (simp_all add: stateInv_def)
  let ?ms = "messages c @ [\<lparr>sender = ''bot'', content = botResponse t, timestamp = stamp\<rparr>]"
  from c have "currentChat (s\<lparr>timers := rest\<rparr>) = Some c" by simp
  from botReplyCallback_Some [OF this, of t stamp loc isoT] obtain s' where
    s': "botReplyCallback t stamp loc isoT (s\<lparr>timers := rest\<rparr>) = Inr s'"
      "currentChat s' = Some (c\<lparr>messages := ?ms\<rparr>)"
      "currentChatId s' = currentChatId s" "screen s' = screen s"
      "getChatHistory s' =
       (if list_ex (\<lambda>ch. chat_id ch = currentChatId s) (getChatHistory s)
        then assignMessages (currentChatId s) ?ms (getChatHistory s)
        else getChatHistory s)"
    by (auto simp: getChatHistory_def)
  have ms: "2 \<le> length ?ms" "sender (hd ?ms) = ''bot''"
    using c_ok by (cases "messages c"; simp)+
  have entries: "\<forall>e\<in>set (getChatHistory s').
      2 \<le> length (messages e) \<and> sender (hd (messages e)) = ''bot'' \<and> chat_id e \<noteq> []"
  proof
    fix e assume e: "e \<in> set (getChatHistory s')"
    show "2 \<le> length (messages e) \<and> sender (hd (messages e)) = ''bot'' \<and> chat_id e \<noteq> []"
    proof (cases "list_ex (\<lambda>ch. chat_id ch = currentChatId s) (getChatHistory s)")
      case True
      with e s'(5) have "e \<in> set (assignMessages (currentChatId s) ?ms (getChatHistory s))"
        by simp
      from assignMessages_set [OF this] assms(1) ms show ?thesis
        by (auto simp: stateInv_def)
    next
      case False
      with e s'(5) assms(1) show ?thesis by (auto simp: stateInv_def)
    qed
  qed
  have ids: "distinct (map chat_id (getChatHistory s'))"
    using assms(1) s'(5) by (auto simp: stateInv_def assignMessages_ids)
  from assms s' c ms c_ok entries ids Cons show ?thesis
    by (auto simp: stateInv_def fireTimer_def)
qed

lemma stateInv_step:
  assumes "stateInv s" and "enabled e s"
  shows "\<exists>s'. step e s = Inr s' \<and> stateInv s'"
proof (cases e)
  case (Send input stamp)
  with assms stateInv_sendMessage [of s input stamp] show ?thesis by simp
next
  case (Reply stamp loc isoT)
  with assms stateInv_fireTimer [of s stamp loc isoT] show ?thesis by simp
qed (use assms in \<open>simp_all add: stateInv_handleOptionSelect stateInv_handleProfileSubmit
      stateInv_handleBackFromChat stateInv_showInitialScreen stateInv_loadChat
      stateInv_deleteAllHistory stateInv_reload\<close>)

lemma stateInv_run:
  assumes "stateInv s" and "admissible enabled evs s"
  shows "\<exists>s'. run evs s = Inr s' \<and> stateInv s'"
  using assms
proof (induction evs arbitrary: s)
  case Nil
  then show ?case by simp
next
  case (Cons e evs)
  from Cons.prems have en: "enabled e s" by simp
  from stateInv_step [OF Cons.prems(1) en] obtain s1 where
    s1: "step e s = Inr s1" "stateInv s1" by blast
  with Cons.prems have "admissible enabled evs s1" by simp
  from Cons.IH [OF s1(2) this] s1(1) show ?case by simp
qed

section \<open>Entries and the working copy of a session\<close>

lemma same_id_same_entry:
  "distinct (map chat_id H) \<Longrightarrow> e \<in> set H \<Longrightarrow> e' \<in> set H \<Longrightarrow> chat_id e' = chat_id e \<Longrightarrow>
     e' = e"
  by (auto simp: distinct_map inj_on_def)

lemma syncInv_startNewChat:
  assumes "\<not> list_ex (\<lambda>ch. chat_id ch = toString nowMs) (getChatHistory s)"
  shows "syncInv (startNewChat nowMs created stamp s)"
  using assms
  by (auto simp: syncInv_def startNewChat_def showChatScreen_def Let_def getChatHistory_def
      list_ex_iff)

lemma syncInv_cleared:
  assumes "stateInv s'" and "currentChatId s' = []"
  shows "syncInv s'"
  using assms by (auto simp: syncInv_def stateInv_def)

lemma syncInv_handleOptionSelect:
  assumes "syncInv s"
    and "\<not> list_ex (\<lambda>ch. chat_id ch = toString nowMs) (getChatHistory s)"
  shows "syncInv (handleOptionSelect option nowMs created stamp s)"
proof -
  let ?s1 = "s\<lparr>currentChatType := option,
                 chatTitle :=
                   (if option = ''medical'' then ''Medical Advice''
                    else if option = ''checkup'' then ''Health Checkup''
                    else if option = ''learning'' then ''Learning''
                    else chatTitle s)\<rparr>"
  from assms(1) have "syncInv (showProfileScreen ?s1)"
    by (simp add: syncInv_def getChatHistory_def showProfileScreen_def)
  moreover from assms(2) have "\<not> list_ex (\<lambda>ch. chat_id ch = toString nowMs) (getChatHistory ?s1)"
    by (simp add: getChatHistory_def)
  then have "syncInv (startNewChat nowMs created stamp ?s1)" by (rule syncInv_startNewChat)
  ultimately show ?thesis by (simp add: handleOptionSelect_def Let_def)
qed

lemma syncInv_handleProfileSubmit:
  assumes "\<not> list_ex (\<lambda>ch. chat_id ch = toString nowMs) (getChatHistory s)"
  shows "syncInv (handleProfileSubmit nm ag sx descr updated nowMs created stamp s)"
proof -
  from assms have "\<not> list_ex (\<lambda>ch. chat_id ch = toString nowMs)
      (getChatHistory (s\<lparr>profile := Some p, storedProfile := Some p\<rparr>))" for p
    by (simp add: getChatHistory_def)
  then show ?thesis by (simp add: handleProfileSubmit_def Let_def syncInv_startNewChat)
qed

lemma syncInv_loadChat:
  assumes "stateInv s" and "syncInv s"
  shows "syncInv (loadChat chatId s)"
proof (cases "find (\<lambda>ch. chat_id ch = chatId) (getChatHistory s)")
  case None
  with assms show ?thesis by (simp add: loadChat_def)
next
  case (Some ch)
  from find_SomeD [OF Some] have ch: "ch \<in> set (getChatHistory s)" "chat_id ch = chatId"
    by simp_all
  from assms(1) have d: "distinct (map chat_id (getChatHistory s))" by (simp add: stateInv_def)
  from assms(1) ch(1) have len: "2 \<le> length (messages ch)" by (simp add: stateInv_def)
  have "e = ch" if "e \<in> set (getChatHistory s)" "chat_id e = chatId" for e
    using same_id_same_entry [OF d ch(1) that(1)] that(2) ch(2) by simp
  with Some len show ?thesis
    by (auto simp: syncInv_def loadChat_def showChatScreen_def getChatHistory_def)
qed

lemma syncInv_deleteAllHistory: "syncInv s \<Longrightarrow> syncInv (deleteAllHistory confirmed s)"
  by (simp add: syncInv_def deleteAllHistory_def getChatHistory_def)

lemma syncInv_init: "syncInv (init pageTitle sp sh)"
  by (simp add: syncInv_def init_def)

text \<open>What a message list assigned in sync does to the entries.\<close>

lemma synced_entries:
  assumes d: "distinct (map chat_id H)"
    and sync: "\<forall>e\<in>set H. chat_id e = i \<longrightarrow> hd (messages e) = hd ms"
    and e0: "e0 \<in> set H" and e1: "e1 \<in> set (assignMessages i ms H)"
    and same: "chat_id e1 = chat_id e0"
  shows "hd (messages e1) = hd (messages e0)"
proof -
  from assignMessages_set [OF e1] show ?thesis
  proof
    assume "e1 \<in> set H"
    from same_id_same_entry [OF d e0 this same] show ?thesis by simp
  next
    assume "\<exists>e\<in>set H. chat_id e = i \<and> e1 = e\<lparr>messages := ms\<rparr>"
    then obtain e where e: "e \<in> set H" "chat_id e = i" "e1 = e\<lparr>messages := ms\<rparr>" by blast
    with same have "chat_id e = chat_id e0" by simp
    from same_id_same_entry [OF d e0 e(1) this] have "e = e0" .
    with e sync show ?thesis by simp
  qed
qed

lemma frame_same:
  assumes "distinct (map chat_id H)"
  shows "\<forall>e0\<in>set H. \<forall>e1\<in>set H. chat_id e1 = chat_id e0 \<longrightarrow> hd (messages e1) = hd (messages e0)"
proof (intro ballI impI)
  fix e0 e1 assume "e0 \<in> set H" "e1 \<in> set H" "chat_id e1 = chat_id e0"
  from same_id_same_entry [OF assms this] show "hd (messages e1) = hd (messages e0)" by simp
qed

lemma frame_subset:
  assumes "distinct (map chat_id H)" and "set H' \<subseteq> set H"
  shows "\<forall>e0\<in>set H. \<forall>e1\<in>set H'. chat_id e1 = chat_id e0 \<longrightarrow> hd (messages e1) = hd (messages e0)"
  using frame_same [OF assms(1)] assms(2) by blast

lemma frame_assign:
  assumes d: "distinct (map chat_id H)"
    and sync: "\<forall>e\<in>set H. chat_id e = i \<longrightarrow> hd (messages e) = hd ms"
  shows "\<forall>e0\<in>set H. \<forall>e1\<in>set (assignMessages i ms H).
           chat_id e1 = chat_id e0 \<longrightarrow> hd (messages e1) = hd (messages e0)"
proof (intro ballI impI)
  fix e0 e1 assume "e0 \<in> set H" "e1 \<in> set (assignMessages i ms H)" "chat_id e1 = chat_id e0"
  from synced_entries [OF d sync this] show "hd (messages e1) = hd (messages e0)" .
qed

lemma sync_assign:
  assumes sync: "\<forall>e\<in>set H. chat_id e = i \<longrightarrow> hd (messages e) = hd ms"
  shows "\<forall>e1\<in>set (assignMessages i ms H). chat_id e1 = i \<longrightarrow> hd (messages e1) = hd ms"
proof (intro ballI impI)
  fix e1 assume e1: "e1 \<in> set (assignMessages i ms H)" and i: "chat_id e1 = i"
  from assignMessages_set [OF e1] show "hd (messages e1) = hd ms"
  proof
    assume "e1 \<in> set H"
    with sync i show ?thesis by simp
  next
    assume "\<exists>e\<in>set H. chat_id e = i \<and> e1 = e\<lparr>messages := ms\<rparr>"
    then show ?thesis by auto
  qed
qed

lemma syncInv_I:
  assumes "currentChat s' = Some c'" and "2 \<le> length (messages c')"
    and "\<forall>e\<in>set (getChatHistory s'). chat_id e = currentChatId s' \<longrightarrow>
           hd (messages e) = hd (messages c')"
  shows "syncInv s'"
  using assms by (simp add: syncInv_def)

lemma hd_snoc: "ms \<noteq> [] \<Longrightarrow> hd (ms @ [m]) = hd ms \<and> 2 \<le> length (ms @ [m])"
  by (cases ms) simp_all

lemma fireTimer_idle:
  "timers s = [] \<Longrightarrow> fireTimer stamp loc isoT s = Inr s' \<Longrightarrow> s' = s"
  unfolding fireTimer_def by (cases "timers s") auto

lemma sendMessage_blank:
  "trim input = [] \<Longrightarrow> sendMessage input stamp s = Inr s' \<Longrightarrow> s' = s"
  unfolding sendMessage_def by auto

lemma sync_sendMessage:
  assumes inv: "stateInv s" and sync: "syncInv s" and scr: "screen s = ChatScreen"
    and res: "sendMessage input stamp s = Inr s'"
  shows "syncInv s' \<and>
    (\<forall>e0\<in>set (getChatHistory s). \<forall>e1\<in>set (getChatHistory s').
       chat_id e1 = chat_id e0 \<longrightarrow> hd (messages e1) = hd (messages e0))"
proof (cases "trim input = []")
  case True
  from inv have d: "distinct (map chat_id (getChatHistory s))" by (simp add: stateInv_def)
  from True res have "s' = s" by (rule sendMessage_blank)
  show ?thesis unfolding \<open>s' = s\<close> using sync frame_same [OF d] by (rule conjI)
next
  case False
  from inv scr obtain c where c: "currentChat s = Some c" "chat_id c = currentChatId s"
    by (auto simp: stateInv_def)
  from inv c(1) have c_ok: "messages c \<noteq> []" by (simp add: stateInv_def)
  from inv have d: "distinct (map chat_id (getChatHistory s))" by (simp add: stateInv_def)
  define ms where "ms = messages c @ [\<lparr>sender = ''user'', content = trim input, timestamp = stamp\<rparr>]"
  from sendMessage_obs [OF c(1) False, of stamp] res have
    s': "currentChat s' = Some (c\<lparr>messages := ms\<rparr>)"
      "currentChatId s' = currentChatId s"
      "getChatHistory s' =
       (if list_ex (\<lambda>ch. chat_id ch = currentChatId s) (getChatHistory s)
        then assignMessages (currentChatId s) ms (getChatHistory s)
        else getChatHistory s @ [c\<lparr>messages := ms\<rparr>])"
    unfolding ms_def by auto
  have hd_ms: "hd ms = hd (messages c)" "2 \<le> length ms"
    unfolding ms_def using hd_snoc [OF c_ok] by simp_all
  from sync c(1) have old: "\<forall>e\<in>set (getChatHistory s).
      chat_id e = currentChatId s \<longrightarrow> hd (messages e) = hd ms"
    by (simp add: syncInv_def hd_ms)
  show ?thesis
  proof (cases "list_ex (\<lambda>ch. chat_id ch = currentChatId s) (getChatHistory s)")
    case True
    with s'(3) have H': "getChatHistory s' = assignMessages (currentChatId s) ms (getChatHistory s)"
      by simp
    have "syncInv s'"
    proof (rule syncInv_I [OF s'(1)])
      show "2 \<le> length (messages (c\<lparr>messages := ms\<rparr>))" using hd_ms by simp
      show "\<forall>e\<in>set (getChatHistory s'). chat_id e = currentChatId s' \<longrightarrow>
           hd (messages e) = hd (messages (c\<lparr>messages := ms\<rparr>))"
        unfolding H' s'(2) using sync_assign [OF old] by simp
    qed
    moreover have "\<forall>e0\<in>set (getChatHistory s). \<forall>e1\<in>set (getChatHistory s').
       chat_id e1 = chat_id e0 \<longrightarrow> hd (messages e1) = hd (messages e0)"
      unfolding H' by (rule frame_assign [OF d old])
    ultimately show ?thesis by (rule conjI)
  next
    case False
    with s'(3) have H': "getChatHistory s' = getChatHistory s @ [c\<lparr>messages := ms\<rparr>]" by simp
    from False c(2) have absent: "\<forall>e\<in>set (getChatHistory s). chat_id e \<noteq> chat_id c"
      by (simp add: list_ex_iff)
    have "syncInv s'"
    proof (rule syncInv_I [OF s'(1)])
      show "2 \<le> length (messages (c\<lparr>messages := ms\<rparr>))" using hd_ms by simp
      show "\<forall>e\<in>set (getChatHistory s'). chat_id e = currentChatId s' \<longrightarrow>
           hd (messages e) = hd (messages (c\<lparr>messages := ms\<rparr>))"
        using H' s'(2) absent c(2) by simp
    qed
    moreover have "\<forall>e0\<in>set (getChatHistory s). \<forall>e1\<in>set (getChatHistory s').
       chat_id e1 = chat_id e0 \<longrightarrow> hd (messages e1) = hd (messages e0)"
    proof (intro ballI impI)
      fix e0 e1 assume e0: "e0 \<in> set (getChatHistory s)" and e1: "e1 \<in> set (getChatHistory s')"
        and same: "chat_id e1 = chat_id e0"
      from e1 H' have "e1 \<in> set (getChatHistory s) \<or> e1 = c\<lparr>messages := ms\<rparr>" by auto
      then show "hd (messages e1) = hd (messages e0)"
      proof
        assume "e1 \<in> set (getChatHistory s)"
        from same_id_same_entry [OF d e0 this same] show ?thesis by simp
      next
        assume "e1 = c\<lparr>messages := ms\<rparr>"
        with same absent e0 show ?thesis by auto
      qed
    qed
    ultimately show ?thesis by (rule conjI)
  qed
qed

lemma sync_fireTimer:
  assumes inv: "stateInv s" and sync: "syncInv s"
    and res: "fireTimer stamp loc isoT s = Inr s'"
  shows "syncInv s' \<and>
    (\<forall>e0\<in>set (getChatHistory s). \<forall>e1\<in>set (getChatHistory s').
       chat_id e1 = chat_id e0 \<longrightarrow> hd (messages e1) = hd (messages e0))"
proof (cases "timers s")
  case Nil
  from inv have d: "distinct (map chat_id (getChatHistory s))" by (simp add: stateInv_def)
  from Nil res have "s' = s" by (rule fireTimer_idle)
  show ?thesis unfolding \<open>s' = s\<close> using sync frame_same [OF d] by (rule conjI)
next
  case (Cons t rest)
  with inv obtain c where c: "currentChat s = Some c" by (auto simp: stateInv_def)
  from inv c have c_ok: "messages c \<noteq> []" by (simp add: stateInv_def)
  from inv have d: "distinct (map chat_id (getChatHistory s))" by (simp add: stateInv_def)
  define ms where "ms = messages c @ [\<lparr>sender = ''bot'', content = botResponse t, timestamp = stamp\<rparr>]"
  from c have c': "currentChat (s\<lparr>timers := rest\<rparr>) = Some c" by simp
  from res Cons have res': "botReplyCallback t stamp loc isoT (s\<lparr>timers := rest\<rparr>) = Inr s'"
    by (simp add: fireTimer_def)
  from botReplyCallback_Some [OF c', of t stamp loc isoT] res' have
    s': "currentChat s' = Some (c\<lparr>messages := ms\<rparr>)"
      "currentChatId s' = currentChatId s"
      "getChatHistory s' =
       (if list_ex (\<lambda>ch. chat_id ch = currentChatId s) (getChatHistory s)
        then assignMessages (currentChatId s) ms (getChatHistory s)
        else getChatHistory s)"
    unfolding ms_def by (auto simp: getChatHistory_def)
  have hd_ms: "hd ms = hd (messages c)" "2 \<le> length ms"
    unfolding ms_def using hd_snoc [OF c_ok] by simp_all
  from sync c have old: "\<forall>e\<in>set (getChatHistory s).
      chat_id e = currentChatId s \<longrightarrow> hd (messages e) = hd ms"
    by (simp add: syncInv_def hd_ms)
  have H': "getChatHistory s' = assignMessages (currentChatId s) ms (getChatHistory s)"
    using s'(3) by (simp add: assignMessages_absent)
  have "syncInv s'"
  proof (rule syncInv_I [OF s'(1)])
    show "2 \<le> length (messages (c\<lparr>messages := ms\<rparr>))" using hd_ms by simp
    show "\<forall>e\<in>set (getChatHistory s'). chat_id e = currentChatId s' \<longrightarrow>
         hd (messages e) = hd (messages (c\<lparr>messages := ms\<rparr>))"
      unfolding H' s'(2) using sync_assign [OF old] by simp
  qed
  moreover have "\<forall>e0\<in>set (getChatHistory s). \<forall>e1\<in>set (getChatHistory s').
       chat_id e1 = chat_id e0 \<longrightarrow> hd (messages e1) = hd (messages e0)"
    unfolding H' by (rule frame_assign [OF d old])
  ultimately show ?thesis by (rule conjI)
qed

lemma history_startNewChat [simp]:
  "getChatHistory (startNewChat nowMs created stamp s) = getChatHistory s"
  by (simp add: startNewChat_def showChatScreen_def Let_def getChatHistory_def)

lemma history_handleOptionSelect [simp]:
  "getChatHistory (handleOptionSelect option nowMs created stamp s) = getChatHistory s"
  by (simp add: handleOptionSelect_def showProfileScreen_def startNewChat_def showChatScreen_def
      Let_def getChatHistory_def)

lemma history_handleProfileSubmit [simp]:
  "getChatHistory (handleProfileSubmit nm ag sx descr updated nowMs created stamp s) =
     getChatHistory s"
  by (simp add: handleProfileSubmit_def startNewChat_def showChatScreen_def
      Let_def getChatHistory_def)

lemma history_showInitialScreen [simp]:
  "getChatHistory (showInitialScreen s) = getChatHistory s"
  by (simp add: showInitialScreen_def getChatHistory_def)

lemma history_loadChat [simp]: "getChatHistory (loadChat chatId s) = getChatHistory s"
  by (simp add: loadChat_def showChatScreen_def getChatHistory_def split: option.split)

lemma history_init [simp]: "getChatHistory (init pageTitle sp (storedHistory s)) = getChatHistory s"
  by (simp add: init_def getChatHistory_def)

lemma history_deleteAllHistory:
  "set (getChatHistory (deleteAllHistory confirmed s)) \<subseteq> set (getChatHistory s)"
  by (simp add: deleteAllHistory_def getChatHistory_def)

lemma history_handleBackFromChat:
  "set (getChatHistory (handleBackFromChat s)) \<subseteq> set (getChatHistory s)"
  by (auto simp: handleBackFromChat_def showInitialScreen_def saveChatHistory_def
      getChatHistory_def Let_def)

lemma currentChatId_handleBackFromChat [simp]: "currentChatId (handleBackFromChat s) = []"
  by (simp add: handleBackFromChat_def showInitialScreen_def saveChatHistory_def Let_def)

lemma currentChatId_showInitialScreen [simp]: "currentChatId (showInitialScreen s) = []"
  by (simp add: showInitialScreen_def)

lemma fresh_step:
  assumes inv: "stateInv s" and sync: "syncInv s" and en: "enabledFresh e s"
  shows "\<exists>s'. step e s = Inr s' \<and> stateInv s' \<and> syncInv s' \<and>
    (\<forall>e0\<in>set (getChatHistory s). \<forall>e1\<in>set (getChatHistory s').
       chat_id e1 = chat_id e0 \<longrightarrow> hd (messages e1) = hd (messages e0))"
proof -
  from inv have d: "distinct (map chat_id (getChatHistory s))" by (simp add: stateInv_def)
  from en have en': "enabled e s" by (simp add: enabledFresh_def)
  from stateInv_step [OF inv en'] obtain s' where s': "step e s = Inr s'" "stateInv s'" by blast
  have "syncInv s' \<and>
    (\<forall>e0\<in>set (getChatHistory s). \<forall>e1\<in>set (getChatHistory s').
       chat_id e1 = chat_id e0 \<longrightarrow> hd (messages e1) = hd (messages e0))"
  proof (cases e)
    case (SelectOption option nowMs created stamp)
    with s'(1) have eq: "s' = handleOptionSelect option nowMs created stamp s" by simp
    from en SelectOption have "\<not> list_ex (\<lambda>ch. chat_id ch = toString nowMs) (getChatHistory s)"
      by (simp add: enabledFresh_def freshClock_def)
    from syncInv_handleOptionSelect [OF sync this] frame_same [OF d] show ?thesis
      unfolding eq history_handleOptionSelect by (rule conjI)
  next
    case (SubmitProfile nm ag sx descr updated nowMs created stamp)
    with s'(1) have eq: "s' = handleProfileSubmit nm ag sx descr updated nowMs created stamp s"
      by simp
    from en SubmitProfile have "\<not> list_ex (\<lambda>ch. chat_id ch = toString nowMs) (getChatHistory s)"
      by (simp add: enabledFresh_def freshClock_def)
    from syncInv_handleProfileSubmit [OF this] frame_same [OF d] show ?thesis
      unfolding eq history_handleProfileSubmit by (rule conjI)
  next
    case (Send input stamp)
    with en' s'(1) have "screen s = ChatScreen" "sendMessage input stamp s = Inr s'" by simp_all
    from sync_sendMessage [OF inv sync this] show ?thesis .
  next
    case (Reply stamp loc isoT)
    with s'(1) have "fireTimer stamp loc isoT s = Inr s'" by simp
    from sync_fireTimer [OF inv sync this] show ?thesis .
  next
    case Back
    with s'(1) have eq: "s' = handleBackFromChat s" by simp
    from s'(2) have "syncInv s'" unfolding eq by (rule syncInv_cleared) simp
    with frame_subset [OF d history_handleBackFromChat] show ?thesis
      unfolding eq by simp
  next
    case ShowInitial
    with s'(1) have eq: "s' = showInitialScreen s" by simp
    from s'(2) have "syncInv s'" unfolding eq by (rule syncInv_cleared) simp
    then show ?thesis using frame_same [OF d] unfolding eq history_showInitialScreen
      by (rule conjI)
  next
    case (OpenChat chatId)
    with s'(1) have eq: "s' = loadChat chatId s" by simp
    from syncInv_loadChat [OF inv sync] frame_same [OF d] show ?thesis
      unfolding eq history_loadChat by (rule conjI)
  next
    case (DeleteHistory confirmed)
    with s'(1) have eq: "s' = deleteAllHistory confirmed s" by simp
    from syncInv_deleteAllHistory [OF sync] frame_subset [OF d history_deleteAllHistory]
    show ?thesis unfolding eq by (rule conjI)
  next
    case (Reload pageTitle)
    with s'(1) have eq: "s' = init pageTitle (storedProfile s) (storedHistory s)" by simp
    from syncInv_init frame_same [OF d] show ?thesis
      unfolding eq history_init by (rule conjI)
  qed
  with s' show ?thesis by blast
qed

lemma admissible_weaken:
  "admissible enabledFresh evs s \<Longrightarrow> admissible enabled evs s"
  by (induction evs arbitrary: s) (auto simp: enabledFresh_def split: sum.splits)

lemma fresh_run:
  assumes "stateInv s" and "syncInv s" and "admissible enabledFresh evs s"
  shows "\<exists>s'. run evs s = Inr s' \<and> stateInv s' \<and> syncInv s'"
  using assms
proof (induction evs arbitrary: s)
  case Nil
  then show ?case by simp
next
  case (Cons e evs)
  from Cons.prems have en: "enabledFresh e s" by simp
  from fresh_step [OF Cons.prems(1,2) en] obtain s1 where
    s1: "step e s = Inr s1" "stateInv s1" "syncInv s1" by blast
  with Cons.prems have "admissible enabledFresh evs s1" by simp
  from Cons.IH [OF s1(2,3) this] s1(1) show ?case by simp
qed

lemma admissible_append:
  "admissible g (xs @ ys) s \<longleftrightarrow>
     admissible g xs s \<and> (case run xs s of Inl err \<Rightarrow> True | Inr s' \<Rightarrow> admissible g ys s')"
  by (induction xs arbitrary: s) (auto split: sum.splits)

section \<open>Leaving a session\<close>

lemma back_absent:
  assumes "\<not> list_ex (\<lambda>ch. chat_id ch = currentChatId s) (getChatHistory s)"
  shows "getChatHistory (handleBackFromChat s) = getChatHistory s"
proof -
  from assms have
    "filter (\<lambda>ch. chat_id ch \<noteq> currentChatId s) (getChatHistory s) = getChatHistory s"
    by (simp add: filter_id_conv list_ex_iff)
  then show ?thesis
    by (simp add: handleBackFromChat_def Let_def saveChatHistory_def showInitialScreen_def
        getChatHistory_def)
qed

lemma back_promoted:
  assumes "currentChat s = Some c" and "1 < length (messages c)"
  shows "storedHistory (handleBackFromChat s) = storedHistory s"
  using assms by (simp add: handleBackFromChat_def showInitialScreen_def)

lemma back_history:
  assumes inv: "stateInv s" and sync: "syncInv s"
  shows "getChatHistory (handleBackFromChat s) = getChatHistory s"
proof (cases "currentChat s")
  case None
  with inv have "currentChatId s = []" by (simp add: stateInv_def)
  moreover from inv have "\<forall>e\<in>set (getChatHistory s). chat_id e \<noteq> []"
    by (simp add: stateInv_def)
  ultimately have "\<not> list_ex (\<lambda>ch. chat_id ch = currentChatId s) (getChatHistory s)"
    by (simp add: list_ex_iff)
  then show ?thesis by (rule back_absent)
next
  case (Some c)
  show ?thesis
  proof (cases "1 < length (messages c)")
    case True
    from back_promoted [OF Some True] show ?thesis by (simp add: getChatHistory_def)
  next
    case False
    have "chat_id e \<noteq> currentChatId s" if "e \<in> set (getChatHistory s)" for e
    proof
      assume "chat_id e = currentChatId s"
      with sync Some that have "2 \<le> length (messages c)" by (auto simp: syncInv_def)
      with False show False by simp
    qed
    then have "\<not> list_ex (\<lambda>ch. chat_id ch = currentChatId s) (getChatHistory s)"
      by (auto simp: list_ex_iff)
    then show ?thesis by (rule back_absent)
  qed
qed

lemma unpromoted_step:
  assumes c: "currentChat s = Some c"
    and absent: "\<not> list_ex (\<lambda>ch. chat_id ch = currentChatId s) (getChatHistory s)"
    and ev: "sessionEvent e" and blank: "\<not> accepted e"
  shows "\<exists>s' c'. step e s = Inr s' \<and> currentChat s' = Some c' \<and>
           chat_id c' = chat_id c \<and>
           currentChatId s' = currentChatId s \<and> getChatHistory s' = getChatHistory s"
proof (cases e)
  case (Send input stamp)
  with blank c show ?thesis by (simp add: sendMessage_def)
next
  case (Reply stamp loc isoT)
  show ?thesis
  proof (cases "timers s")
    case Nil
    with Reply c show ?thesis by (simp add: fireTimer_def)
  next
    case (Cons t rest)
    from c have c': "currentChat (s\<lparr>timers := rest\<rparr>) = Some c" by simp
    from botReplyCallback_Some [OF c', of t stamp loc isoT] absent Reply Cons show ?thesis
      by (auto simp: fireTimer_def getChatHistory_def)
  qed
qed (use ev in simp_all)

lemma unpromoted_run:
  assumes "currentChat s = Some c"
    and "\<not> list_ex (\<lambda>ch. chat_id ch = currentChatId s) (getChatHistory s)"
    and "list_all sessionEvent evs" and "filter accepted evs = []"
  shows "\<exists>s' c'. run evs s = Inr s' \<and> currentChat s' = Some c' \<and> chat_id c' = chat_id c \<and>
           currentChatId s' = currentChatId s \<and> getChatHistory s' = getChatHistory s"
  using assms
proof (induction evs arbitrary: s c)
  case Nil
  then show ?case by simp
next
  case (Cons e evs)
  from Cons.prems have e: "sessionEvent e" "\<not> accepted e"
    and evs: "list_all sessionEvent evs" "filter accepted evs = []"
    by (simp_all split: if_splits)
  from unpromoted_step [OF Cons.prems(1,2) e] obtain s1 c1 where
    s1: "step e s = Inr s1" "currentChat s1 = Some c1" "chat_id c1 = chat_id c"
      "currentChatId s1 = currentChatId s" "getChatHistory s1 = getChatHistory s"
    by blast
  with Cons.prems(2) have "\<not> list_ex (\<lambda>ch. chat_id ch = currentChatId s1) (getChatHistory s1)"
    by simp
  from Cons.IH [OF s1(2) this evs] s1 show ?case by auto
qed

lemma step_grows:
  assumes "sessionEvent e" and "currentChat s = Some c"
  shows "\<exists>s' c'. step e s = Inr s' \<and> currentChat s' = Some c' \<and>
           length (messages c) + (if accepted e then 1 else 0) \<le> length (messages c')"
proof (cases e)
  case (Send input stamp)
  show ?thesis
  proof (cases "trim input = []")
    case True
    with Send assms show ?thesis by (simp add: sendMessage_def)
  next
    case False
    with Send assms sendMessage_accepted [OF assms(2) False, of stamp] show ?thesis by simp
  qed
next
  case (Reply stamp loc isoT)
  show ?thesis
  proof (cases "timers s")
    case Nil
    with Reply assms show ?thesis by (simp add: fireTimer_def)
  next
    case (Cons t rest)
    from assms have "currentChat (s\<lparr>timers := rest\<rparr>) = Some c" by simp
    from botReplyCallback_Some [OF this, of t stamp loc isoT] Reply Cons show ?thesis
      by (auto simp: fireTimer_def)
  qed
qed (use assms in simp_all)

lemma run_grows:
  assumes "list_all sessionEvent evs" and "currentChat s = Some c"
  shows "\<exists>s' c'. run evs s = Inr s' \<and> currentChat s' = Some c' \<and>
           length (messages c) + length (filter accepted evs) \<le> length (messages c')"
  using assms
proof (induction evs arbitrary: s c)
  case Nil
  then show ?case by simp
next
  case (Cons e evs)
  from Cons.prems have e: "sessionEvent e" and evs: "list_all sessionEvent evs" by simp_all
  from step_grows [OF e Cons.prems(2)] obtain s1 c1 where
    s1: "step e s = Inr s1" "currentChat s1 = Some c1"
      "length (messages c) + (if accepted e then 1 else 0) \<le> length (messages c1)"
    by blast
  from Cons.IH [OF evs s1(2)] obtain s' c' where
    "run evs s1 = Inr s'" "currentChat s' = Some c'"
    "length (messages c1) + length (filter accepted evs) \<le> length (messages c')"
    by blast
  with s1 show ?case by (auto split: if_splits)
qed

text \<open>
  C8, as the code has it. In every state reached by a run in which no session starts at a
  clock reading that is the id of a stored entry, \<open>handleBackFromChat\<close> leaves the
  stored history, as \<open>getChatHistory\<close> reads it, as it was. A session started at a
  reading that is no stored id, in which no message was accepted, leaves on closing the
  history as it was before the session started. A session in which a message was
  accepted leaves on closing the stored item untouched, whatever its id.
\<close>

theorem closeSession_history:
  "(admissible enabledFresh evs (init pageTitle None None) \<longrightarrow>
      (\<exists>s. run evs (init pageTitle None None) = Inr s \<and>
           getChatHistory (handleBackFromChat s) = getChatHistory s)) \<and>
   (\<not> list_ex (\<lambda>ch. chat_id ch = toString nowMs) (getChatHistory s0) \<and>
    list_all sessionEvent quiet \<and> filter accepted quiet = [] \<longrightarrow>
      (\<exists>s. run quiet (startNewChat nowMs created stamp s0) = Inr s \<and>
           getChatHistory (handleBackFromChat s) = getChatHistory s0)) \<and>
   (currentChat s1 = Some c \<and> messages c \<noteq> [] \<and>
    list_all sessionEvent talk \<and> filter accepted talk \<noteq> [] \<longrightarrow>
      (\<exists>s. run talk s1 = Inr s \<and> storedHistory (handleBackFromChat s) = storedHistory s))"
proof (intro conjI impI)
  assume "admissible enabledFresh evs (init pageTitle None None)"
  from fresh_run [OF stateInv_init syncInv_init this] obtain s where
    "run evs (init pageTitle None None) = Inr s" "stateInv s" "syncInv s" by blast
  with back_history show "\<exists>s. run evs (init pageTitle None None) = Inr s \<and>
           getChatHistory (handleBackFromChat s) = getChatHistory s" by blast
next
  let ?s = "startNewChat nowMs created stamp s0"
  assume a: "\<not> list_ex (\<lambda>ch. chat_id ch = toString nowMs) (getChatHistory s0) \<and>
    list_all sessionEvent quiet \<and> filter accepted quiet = []"
  from startNewChat_session [of nowMs created stamp s0] obtain c0 where
    c0: "currentChat ?s = Some c0" "currentChatId ?s = toString nowMs" by blast
  from a c0(2) have "\<not> list_ex (\<lambda>ch. chat_id ch = currentChatId ?s) (getChatHistory ?s)"
    by simp
  from unpromoted_run [OF c0(1) this] a obtain s where
    s: "run quiet ?s = Inr s" "currentChatId s = currentChatId ?s"
      "getChatHistory s = getChatHistory ?s"
    by blast
  with a c0(2) have "\<not> list_ex (\<lambda>ch. chat_id ch = currentChatId s) (getChatHistory s)"
    by simp
  from back_absent [OF this] s show "\<exists>s. run quiet ?s = Inr s \<and>
           getChatHistory (handleBackFromChat s) = getChatHistory s0" by simp
next
  assume a: "currentChat s1 = Some c \<and> messages c \<noteq> [] \<and>
    list_all sessionEvent talk \<and> filter accepted talk \<noteq> []"
  then have c: "currentChat s1 = Some c" and talk: "list_all sessionEvent talk" by simp_all
  from run_grows [OF talk c] obtain s c' where
    s: "run talk s1 = Inr s" "currentChat s = Some c'"
      "length (messages c) + length (filter accepted talk) \<le> length (messages c')"
    by blast
  from a have "0 < length (messages c)" "0 < length (filter accepted talk)" by simp_all
  with s(3) have "1 < length (messages c')" by linarith
  from back_promoted [OF s(2) this] s(1) show
    "\<exists>s. run talk s1 = Inr s \<and> storedHistory (handleBackFromChat s) = storedHistory s"
    by blast
qed

theorem closeSession_history_witness:
  "admissible enabledFresh
     [SelectOption ''learning'' 5 ''c0'' ''t0'', Send ''a'' ''t1'', Reply ''t2'' ''l2'' ''i2'']
     (init [] None None) \<and>
   (\<exists>s. run [SelectOption ''learning'' 5 ''c0'' ''t0'', Send ''a'' ''t1'', Reply ''t2'' ''l2'' ''i2'']
           (init [] None None) = Inr s \<and>
        getChatHistory (handleBackFromChat s) = getChatHistory s) \<and>
   (\<exists>s. run [Send ''  '' ''t1'', Reply ''t2'' ''l2'' ''i2'']
           (startNewChat 7 ''c0'' ''t0'' (init [] None None)) = Inr s \<and>
        getChatHistory (handleBackFromChat s) = getChatHistory (init [] None None)) \<and>
   (\<exists>s. run [Send ''hello'' ''t1'']
           (startNewChat 7 ''c0'' ''t0'' (init [] None None)) = Inr s \<and>
        storedHistory (handleBackFromChat s) = storedHistory s)"
proof -
  let ?evs = "[SelectOption ''learning'' 5 ''c0'' ''t0'', Send ''a'' ''t1'',
               Reply ''t2'' ''l2'' ''i2'']"
  let ?quiet = "[Send ''  '' ''t1'', Reply ''t2'' ''l2'' ''i2'']"
  let ?talk = "[Send ''hello'' ''t1'']"
  let ?s1 = "startNewChat 7 ''c0'' ''t0'' (init [] None None)"
  let ?c = "\<lparr>chat_id = toString 7, chat_type = [], title = [], createdAt = ''c0'',
             messages = [\<lparr>sender = ''bot'', content = initialBotMessage [] None,
                          timestamp = ''t0''\<rparr>]\<rparr>"
  note th = closeSession_history [of ?evs "[]" 7 "init [] None None" ?quiet "''c0''" "''t0''"
      ?s1 ?c ?talk]
  have adm: "admissible enabledFresh ?evs (init [] None None)" by code_simp
  have quiet: "\<not> list_ex (\<lambda>ch. chat_id ch = toString 7) (getChatHistory (init [] None None)) \<and>
    list_all sessionEvent ?quiet \<and> filter accepted ?quiet = []"
    by code_simp
  have talk: "currentChat ?s1 = Some ?c \<and> messages ?c \<noteq> [] \<and>
    list_all sessionEvent ?talk \<and> filter accepted ?talk \<noteq> []"
    by code_simp
  from adm mp [OF conjunct1 [OF th] adm] mp [OF conjunct1 [OF conjunct2 [OF th]] quiet]
    mp [OF conjunct2 [OF conjunct2 [OF th]] talk]
  show ?thesis by (intro conjI)
qed

text \<open>
  A session started at the clock reading of a stored entry has that entry's id: closing
  it before any message was sent removes the entry.
\<close>

theorem closeSession_counterexample:
  "(case run [SelectOption ''learning'' 5 ''c0'' ''t0'', Send ''a'' ''t1'',
              Reply ''t2'' ''l2'' ''i2'', Back] (init [] None None) of
      Inl err \<Rightarrow> False
    | Inr s \<Rightarrow> map chat_id (getChatHistory s) = [''5'']) \<and>
   (case run [SelectOption ''learning'' 5 ''c0'' ''t0'', Send ''a'' ''t1'',
              Reply ''t2'' ''l2'' ''i2'', Back,
              SelectOption ''learning'' 5 ''c3'' ''t3'', Back] (init [] None None) of
      Inl err \<Rightarrow> False
    | Inr s \<Rightarrow> getChatHistory s = [])"
  by code_simp

section \<open>Session ids and the stored entries\<close>

text \<open>
  C6, as the code has it. \<open>startNewChat\<close> takes the id from the clock, the decimal
  digits of \<open>Date.now()\<close>, and compares it with nothing: two sessions have the same id
  exactly when they start at the same reading. The stored entries have pairwise
  distinct ids in every state reached from the first page load by events among which
  messages are sent only while the chat screen is displayed.
\<close>

theorem session_ids:
  "(toString n = toString m \<longleftrightarrow> n = m) \<and>
   currentChatId (startNewChat n created stamp s) = toString n \<and>
   map_option chat_id (currentChat (startNewChat n created stamp s)) = Some (toString n) \<and>
   (admissible enabled evs (init pageTitle None None) \<longrightarrow>
      (\<exists>s'. run evs (init pageTitle None None) = Inr s' \<and>
            distinct (map chat_id (getChatHistory s'))))"
proof (intro conjI impI)
  show "toString n = toString m \<longleftrightarrow> n = m" using toString_inj by blast
  show "currentChatId (startNewChat n created stamp s) = toString n"
    by (simp add: startNewChat_session)
  show "map_option chat_id (currentChat (startNewChat n created stamp s)) = Some (toString n)"
    by (simp add: startNewChat_session)
  assume "admissible enabled evs (init pageTitle None None)"
  from stateInv_run [OF stateInv_init this] show
    "\<exists>s'. run evs (init pageTitle None None) = Inr s' \<and>
          distinct (map chat_id (getChatHistory s'))"
    by (auto simp: stateInv_def)
qed

theorem session_ids_witness:
  "admissible enabled
     [SelectOption ''learning'' 5 ''c0'' ''t0'', Send ''a'' ''t1'', Reply ''t2'' ''l2'' ''i2'',
      Back, SelectOption ''learning'' 5 ''c3'' ''t3'', Send ''b'' ''t4'',
      ShowInitial, SelectOption ''learning'' 8 ''c5'' ''t5'', Send ''c'' ''t6'']
     (init [] None None) \<and>
   (\<exists>s'. run [SelectOption ''learning'' 5 ''c0'' ''t0'', Send ''a'' ''t1'',
              Reply ''t2'' ''l2'' ''i2'', Back, SelectOption ''learning'' 5 ''c3'' ''t3'',
              Send ''b'' ''t4'', ShowInitial, SelectOption ''learning'' 8 ''c5'' ''t5'',
              Send ''c'' ''t6'']
             (init [] None None) = Inr s' \<and>
         distinct (map chat_id (getChatHistory s')))"
proof -
  let ?evs = "[SelectOption ''learning'' 5 ''c0'' ''t0'', Send ''a'' ''t1'',
              Reply ''t2'' ''l2'' ''i2'', Back, SelectOption ''learning'' 5 ''c3'' ''t3'',
              Send ''b'' ''t4'', ShowInitial, SelectOption ''learning'' 8 ''c5'' ''t5'',
              Send ''c'' ''t6'']"
  have adm: "admissible enabled ?evs (init [] None None)" by code_simp
  note th = session_ids [where evs = ?evs and pageTitle = "[]"]
  from adm mp [OF conjunct2 [OF conjunct2 [OF conjunct2 [OF th]]] adm]
  show ?thesis by (intro conjI)
qed

text \<open>
  A session started at the clock reading 5 while the entry of an earlier session with
  the id 5 is stored: the new session has the id of a stored entry. And \<open>sendMessage\<close>
  itself does not look at the screen: called after \<open>showInitialScreen\<close> has cleared
  the current id, it finds no entry with the empty id and appends the working copy a
  second time, so that two stored entries have the id 5.
\<close>

theorem session_ids_counterexample:
  "(case run [SelectOption ''learning'' 5 ''c0'' ''t0'', Send ''a'' ''t1'',
              Reply ''t2'' ''l2'' ''i2'', Back,
              SelectOption ''learning'' 5 ''c3'' ''t3''] (init [] None None) of
      Inl err \<Rightarrow> False
    | Inr s \<Rightarrow> currentChatId s = ''5'' \<and>
              map timestamp (currentMessages s) = [''t3''] \<and>
              map chat_id (getChatHistory s) = [''5''] \<and>
              map (map timestamp \<circ> messages) (getChatHistory s) = [[''t0'', ''t1'', ''t2'']]) \<and>
   (case run [SelectOption ''learning'' 5 ''c0'' ''t0'', Send ''a'' ''t1'', ShowInitial,
              Send ''b'' ''t2''] (init [] None None) of
      Inl err \<Rightarrow> False
    | Inr s \<Rightarrow> screen s = InitialScreen \<and> currentChatId s = [] \<and>
              map chat_id (getChatHistory s) = [''5'', ''5''])"
  by code_simp

text \<open>
  C9, as the code has it. Every stored entry has at least two messages of which the
  first has the sender bot, in every state the application reaches, hence from the
  moment it is inserted. In a run in which no session starts at a clock reading that is
  the id of a stored entry, no event changes the message at position 0 of an entry.
\<close>

theorem history_greeting:
  "(admissible enabled evs (init pageTitle None None) \<longrightarrow>
      (\<exists>s. run evs (init pageTitle None None) = Inr s \<and>
           list_all (\<lambda>e. 2 \<le> length (messages e) \<and> sender (hd (messages e)) = ''bot'')
             (getChatHistory s))) \<and>
   (admissible enabledFresh (evs @ [ev]) (init pageTitle None None) \<longrightarrow>
      (\<exists>s s'. run evs (init pageTitle None None) = Inr s \<and> step ev s = Inr s' \<and>
           (\<forall>e0\<in>set (getChatHistory s). \<forall>e1\<in>set (getChatHistory s').
              chat_id e1 = chat_id e0 \<longrightarrow> hd (messages e1) = hd (messages e0))))"
proof (intro conjI impI)
  assume "admissible enabled evs (init pageTitle None None)"
  from stateInv_run [OF stateInv_init this] show
    "\<exists>s. run evs (init pageTitle None None) = Inr s \<and>
         list_all (\<lambda>e. 2 \<le> length (messages e) \<and> sender (hd (messages e)) = ''bot'')
           (getChatHistory s)"
    by (auto simp: stateInv_def list_all_iff)
next
  assume adm: "admissible enabledFresh (evs @ [ev]) (init pageTitle None None)"
  then have "admissible enabledFresh evs (init pageTitle None None)"
    by (simp add: admissible_append)
  from fresh_run [OF stateInv_init syncInv_init this] obtain s where
    s: "run evs (init pageTitle None None) = Inr s" "stateInv s" "syncInv s" by blast
  with adm have "enabledFresh ev s" by (simp add: admissible_append)
  from fresh_step [OF s(2,3) this] s(1) show
    "\<exists>s s'. run evs (init pageTitle None None) = Inr s \<and> step ev s = Inr s' \<and>
       (\<forall>e0\<in>set (getChatHistory s). \<forall>e1\<in>set (getChatHistory s').
          chat_id e1 = chat_id e0 \<longrightarrow> hd (messages e1) = hd (messages e0))"
    by blast
qed

theorem history_greeting_witness:
  "admissible enabledFresh
     ([SelectOption ''learning'' 5 ''c0'' ''t0'', Send ''a'' ''t1''] @
      [Reply ''t2'' ''l2'' ''i2''])
     (init [] None None) \<and>
   (\<exists>s. run [SelectOption ''learning'' 5 ''c0'' ''t0'', Send ''a'' ''t1'']
           (init [] None None) = Inr s \<and>
        list_all (\<lambda>e. 2 \<le> length (messages e) \<and> sender (hd (messages e)) = ''bot'')
          (getChatHistory s)) \<and>
   (\<exists>s s'. run [SelectOption ''learning'' 5 ''c0'' ''t0'', Send ''a'' ''t1'']
           (init [] None None) = Inr s \<and>
        step (Reply ''t2'' ''l2'' ''i2'') s = Inr s' \<and>
        map chat_id (getChatHistory s) = [''5''] \<and>
        map chat_id (getChatHistory s') = [''5''] \<and>
        map (hd \<circ> messages) (getChatHistory s') = map (hd \<circ> messages) (getChatHistory s))"
proof -
  let ?evs = "[SelectOption ''learning'' 5 ''c0'' ''t0'', Send ''a'' ''t1'']"
  let ?ev = "Reply ''t2'' ''l2'' ''i2''"
  let ?s0 = "init [] None None"
  note th = history_greeting [of ?evs "[]" ?ev]
  have fresh: "admissible enabledFresh (?evs @ [?ev]) ?s0" by code_simp
  have adm: "admissible enabled ?evs ?s0" by code_simp
  from mp [OF conjunct2 [OF th] fresh] obtain s s' where
    s: "run ?evs ?s0 = Inr s" "step ?ev s = Inr s'"
      "\<forall>e0\<in>set (getChatHistory s). \<forall>e1\<in>set (getChatHistory s').
          chat_id e1 = chat_id e0 \<longrightarrow> hd (messages e1) = hd (messages e0)"
    by (elim exE conjE)
  have ids: "case run ?evs ?s0 of Inl err \<Rightarrow> False
             | Inr s \<Rightarrow> map chat_id (getChatHistory s) = [''5'']"
    by code_simp
  with s(1) have ids_s: "map chat_id (getChatHistory s) = [''5'']" by simp
  have ids': "case run (?evs @ [?ev]) ?s0 of Inl err \<Rightarrow> False
             | Inr s \<Rightarrow> map chat_id (getChatHistory s) = [''5'']"
    by code_simp
  have "run [?ev] s = Inr s'" using s(2) by simp
  then have "run (?evs @ [?ev]) ?s0 = Inr s'"
    by (simp only: run_append s(1) sum.case)
  with ids' have ids_s': "map chat_id (getChatHistory s') = [''5'']" by simp
  from ids_s obtain e0 where e0: "getChatHistory s = [e0]" "chat_id e0 = ''5''" by auto
  from ids_s' obtain e1 where e1: "getChatHistory s' = [e1]" "chat_id e1 = ''5''" by auto
  from s(3) e0 e1 have "hd (messages e1) = hd (messages e0)" by simp
  with e0 e1 have "map (hd \<circ> messages) (getChatHistory s') = map (hd \<circ> messages) (getChatHistory s)"
    by simp
  with s(1,2) ids_s ids_s' have
    "run ?evs ?s0 = Inr s \<and> step ?ev s = Inr s' \<and>
     map chat_id (getChatHistory s) = [''5''] \<and> map chat_id (getChatHistory s') = [''5''] \<and>
     map (hd \<circ> messages) (getChatHistory s') = map (hd \<circ> messages) (getChatHistory s)"
    by (intro conjI)
  then have "\<exists>s s'. run ?evs ?s0 = Inr s \<and> step ?ev s = Inr s' \<and>
     map chat_id (getChatHistory s) = [''5''] \<and> map chat_id (getChatHistory s') = [''5''] \<and>
     map (hd \<circ> messages) (getChatHistory s') = map (hd \<circ> messages) (getChatHistory s)"
    by (intro exI)
  with fresh mp [OF conjunct1 [OF th] adm] show ?thesis
    by (intro conjI)
qed

text \<open>
  A session started at the clock reading of a stored entry writes its own messages into
  that entry with its first message: the greeting at position 0 is replaced.
\<close>

theorem history_greeting_counterexample:
  "(case run [SelectOption ''medical'' 4 ''c0'' ''t0'',
              SubmitProfile ''Ann'' ''30'' ''F'' [] ''u0'' 5 ''c1'' ''t1'',
              Send ''cough'' ''t2'', Reply ''t3'' ''l3'' ''i3'', Back,
              SelectOption ''learning'' 5 ''c4'' ''t4''] (init [] None None) of
      Inl err \<Rightarrow> False
    | Inr s \<Rightarrow> map chat_id (getChatHistory s) = [''5''] \<and>
              map (timestamp \<circ> hd \<circ> messages) (getChatHistory s) = [''t1''] \<and>
              map (take 9 \<circ> content \<circ> hd \<circ> messages) (getChatHistory s) = [''Hello Ann'']) \<and>
   (case run [SelectOption ''medical'' 4 ''c0'' ''t0'',
              SubmitProfile ''Ann'' ''30'' ''F'' [] ''u0'' 5 ''c1'' ''t1'',
              Send ''cough'' ''t2'', Reply ''t3'' ''l3'' ''i3'', Back,
              SelectOption ''learning'' 5 ''c4'' ''t4'',
              Send ''volcanoes'' ''t5''] (init [] None None) of
      Inl err \<Rightarrow> False
    | Inr s \<Rightarrow> map chat_id (getChatHistory s) = [''5''] \<and>
              map (timestamp \<circ> hd \<circ> messages) (getChatHistory s) = [''t4''] \<and>
              map (content \<circ> hd \<circ> messages) (getChatHistory s) =
                [''Hello! What would you like to learn about today?''])"
  by code_simp

section \<open>Insertion and update of the entry of a session\<close>












section \<open>Loading malformed data\<close>

lemma tokens_dropWhile: "tokens (dropWhile isJsonWS src) = tokens src"
  by (induction src) simp_all

lemma JSON_parse_dropWhile: "JSON_parse (dropWhile isJsonWS src) = JSON_parse src"
  by (simp add: JSON_parse_def tokens_dropWhile)

lemma JSON_parse_error: "JSON_parse src = Inl err \<Longrightarrow> err = SyntaxError"
  by (auto simp: JSON_parse_def split: option.splits)

lemma JSON_parse_blank: "JSON_parse [] = Inl SyntaxError"
  by (simp add: JSON_parse_def)

lemma JSON_parse_bad_start:
  assumes ws: "\<not> isJsonWS c" and bad: "\<not> startsValue c"
  shows "JSON_parse (c # cs) = Inl SyntaxError"
proof -
  from bad have no: "c \<noteq> CHR ''{''" "c \<noteq> CHR ''[''" "c \<noteq> CHR 0x22" "c \<noteq> CHR ''-''"
    "c \<noteq> CHR ''t''" "c \<noteq> CHR ''f''" "c \<noteq> CHR ''n''" "\<not> isDigit c"
    by (simp_all add: startsValue_def)
  consider "c = CHR ''}''" | "c = CHR '']''" | "c = CHR '':''" | "c = CHR '',''"
    | "c \<noteq> CHR ''}''" "c \<noteq> CHR '']''" "c \<noteq> CHR '':''" "c \<noteq> CHR '',''"
    by blast
  then show ?thesis
  proof cases
    case 1
    with ws show ?thesis
      by (cases "tokens cs") (simp_all add: JSON_parse_def)
  next
    case 2
    with ws show ?thesis
      by (cases "tokens cs") (simp_all add: JSON_parse_def)
  next
    case 3
    with ws show ?thesis
      by (cases "tokens cs") (simp_all add: JSON_parse_def)
  next
    case 4
    with ws show ?thesis
      by (cases "tokens cs") (simp_all add: JSON_parse_def)
  next
    case 5
    with ws no show ?thesis
      by (simp add: JSON_parse_def)
  qed
qed

lemma JSON_parse_no_value:
  assumes "case dropWhile isJsonWS src of [] \<Rightarrow> True | c # rest \<Rightarrow> \<not> startsValue c"
  shows "JSON_parse src = Inl SyntaxError"
proof (cases "dropWhile isJsonWS src")
  case Nil
  with JSON_parse_dropWhile [of src] show ?thesis by (simp add: JSON_parse_blank)
next
  case (Cons c rest)
  then have "\<not> isJsonWS c" using hd_dropWhile [of isJsonWS src] by simp
  moreover from assms Cons have "\<not> startsValue c" by simp
  ultimately have "JSON_parse (c # rest) = Inl SyntaxError" by (rule JSON_parse_bad_start)
  with JSON_parse_dropWhile [of src] Cons show ?thesis by simp
qed

text \<open>
  C1, as the code has it. With the stored item absent or empty, \<open>loadProfile\<close>
  leaves the profile as it is and \<open>getChatHistory\<close> returns the empty array. With any
  other stored text both return what \<open>JSON.parse\<close> returns and raise what it raises,
  which is a SyntaxError: so they do on every text that has, after white space, no
  character that can start a JSON value.
\<close>

theorem loading_text:
  "loadProfile None p = Inr p \<and> loadProfile (Some []) p = Inr p \<and>
   getChatHistory_text None = Inr (JArray []) \<and>
   getChatHistory_text (Some []) = Inr (JArray []) \<and>
   (src \<noteq> [] \<longrightarrow>
      loadProfile (Some src) p = JSON_parse src \<and>
      getChatHistory_text (Some src) = JSON_parse src) \<and>
   (JSON_parse src = Inl err \<longrightarrow> err = SyntaxError) \<and>
   (src \<noteq> [] \<and>
    (case dropWhile isJsonWS src of [] \<Rightarrow> True | c # rest \<Rightarrow> \<not> startsValue c) \<longrightarrow>
      loadProfile (Some src) p = Inl SyntaxError \<and>
      getChatHistory_text (Some src) = Inl SyntaxError)"
  using JSON_parse_error [of src err] JSON_parse_no_value [of src]
  by (simp add: loadProfile_def getChatHistory_text_def)

theorem loading_text_witness:
  \<open>loadProfile (Some ''{"name":"Ann","age":"30"}'') JNull =
     Inr (JObject [(''name'', JString ''Ann''), (''age'', JString ''30'')]) \<and>
   getChatHistory_text (Some ''[{"id":"5","messages":[]}]'') =
     Inr (JArray [JObject [(''id'', JString ''5''), (''messages'', JArray [])]]) \<and>
   loadProfile (Some '' undefined'') JNull = Inl SyntaxError \<and>
   getChatHistory_text (Some '' undefined'') = Inl SyntaxError\<close>
proof -
  have p1: \<open>JSON_parse ''{"name":"Ann","age":"30"}'' =
     Inr (JObject [(''name'', JString ''Ann''), (''age'', JString ''30'')])\<close>
    by code_simp
  have p2: \<open>JSON_parse ''[{"id":"5","messages":[]}]'' =
     Inr (JArray [JObject [(''id'', JString ''5''), (''messages'', JArray [])]])\<close>
    by code_simp
  have bad: "'' undefined'' \<noteq> [] \<and>
    (case dropWhile isJsonWS '' undefined'' of [] \<Rightarrow> True | c # rest \<Rightarrow> \<not> startsValue c)"
    by code_simp
  note a = loading_text [where src = \<open>''{"name":"Ann","age":"30"}''\<close> and p = JNull]
  note b = loading_text [where src = \<open>''[{"id":"5","messages":[]}]''\<close> and p = JNull]
  note c = loading_text [where src = "'' undefined''" and p = JNull]
  from a p1 have \<open>loadProfile (Some ''{"name":"Ann","age":"30"}'') JNull =
     Inr (JObject [(''name'', JString ''Ann''), (''age'', JString ''30'')])\<close>
    by simp
  moreover from b p2 have \<open>getChatHistory_text (Some ''[{"id":"5","messages":[]}]'') =
     Inr (JArray [JObject [(''id'', JString ''5''), (''messages'', JArray [])]])\<close>
    by simp
  moreover from c bad have "loadProfile (Some '' undefined'') JNull = Inl SyntaxError \<and>
    getChatHistory_text (Some '' undefined'') = Inl SyntaxError"
    by blast
  ultimately show ?thesis by (intro conjI) simp_all
qed

text \<open>Stored JSON that was cut off, or has a comma too many, makes both functions raise.\<close>

theorem loading_text_counterexample:
  \<open>loadProfile (Some ''{"name":"Ann","age":'') JNull = Inl SyntaxError \<and>
   getChatHistory_text (Some ''[{"id":"5","messages":[]},]'') = Inl SyntaxError\<close>
  by code_simp

end
